theory Spec2Isabelle
  imports Complex_Main "HOL-Library.AList"
begin

section \<open>Python values, errors and dictionaries\<close>

text \<open>
  The model follows \<^verbatim>\<open>TFTextTransformer._transform\<close> of
  \<^verbatim>\<open>python/sparkdl/transformers/tf_text.py\<close>. Python floats are modelled as reals (the code
  only creates \<^verbatim>\<open>0.0\<close> and copies vector components, it never computes with them), Python
  ints as \<^typ>\<open>int\<close>, strings as lists of characters (code points below 256), and every
  exception as a value of the type \<open>error\<close>.
\<close>

datatype error =
  ValueError | TypeError | KeyError | AnalysisException | StringIndexOutOfBoundsException

text \<open>What \<^verbatim>\<open>tolist()\<close> and the list expressions of the encoder build: nested lists of floats.\<close>

datatype pyval = PyFloat real | PyList "pyval list"

type_synonym vector = "real list"

text \<open>
  A Python \<^verbatim>\<open>dict\<close> with string keys, as an association list in insertion order. Storing
  under an existing key replaces the value where it stands, storing under a new key appends:
  this is \<^const>\<open>AList.update\<close>.
\<close>

type_synonym 'v dict = "(string \<times> 'v) list"

text \<open>\<^verbatim>\<open>dict(pairs)\<close>: the pairs are stored one after the other, a later pair overwrites.\<close>

definition dict_of :: "(string \<times> 'v) list \<Rightarrow> 'v dict" where
  "dict_of pairs = foldl (\<lambda>d kv. AList.update (fst kv) (snd kv) d) [] pairs"

text \<open>\<^verbatim>\<open>word in d.keys()\<close>\<close>

definition dict_contains :: "string \<Rightarrow> 'v dict \<Rightarrow> bool" where
  "dict_contains k d = (k \<in> set (map fst d))"

text \<open>\<^verbatim>\<open>d[word]\<close>, which raises \<^verbatim>\<open>KeyError\<close> on a missing key.\<close>

definition dict_get :: "'v dict \<Rightarrow> string \<Rightarrow> error + 'v" where
  "dict_get d k = (case map_of d k of None \<Rightarrow> Inl KeyError | Some v \<Rightarrow> Inr v)"

section \<open>The library calls the encoder makes\<close>

text \<open>
  \<^verbatim>\<open>np.zeros(n).tolist()\<close>: a list of \<open>n\<close> floats \<^verbatim>\<open>0.0\<close>; numpy raises
  \<^verbatim>\<open>ValueError\<close> for a negative dimension.
\<close>

definition np_zeros :: "int \<Rightarrow> error + vector" where
  "np_zeros n = (if n < 0 then Inl ValueError else Inr (replicate (nat n) 0))"

text \<open>
  \<^verbatim>\<open>re.split(r"\s+", s)\<close> on a Python 3 string. A character of the model is a code
  point below 256. Of these, \<^verbatim>\<open>\s\<close> matches twelve: the six of \<^verbatim>\<open>[ \t\n\r\f\v]\<close>, the
  separators \<^verbatim>\<open>0x1C\<close> to \<^verbatim>\<open>0x1F\<close>, the next-line character \<^verbatim>\<open>0x85\<close> and the
  no-break space \<^verbatim>\<open>0xA0\<close>. The pattern matches a maximal run of them. The pieces between
  the matches are returned, the empty piece before a leading and after a trailing run
  included, so that the result is never empty.
\<close>

definition is_space :: "char \<Rightarrow> bool" where
  "is_space c =
     (c \<in> set [CHR 0x09, CHR 0x0A, CHR 0x0B, CHR 0x0C, CHR 0x0D,
                CHR 0x1C, CHR 0x1D, CHR 0x1E, CHR 0x1F, CHR 0x20, CHR 0x85, CHR 0xA0])"

function re_split :: "string \<Rightarrow> string list" where
  "re_split s =
     (let tok = takeWhile (\<lambda>c. \<not> is_space c) s;
          rest = dropWhile (\<lambda>c. \<not> is_space c) s
      in if rest = [] then [tok] else tok # re_split (dropWhile is_space rest))"
  by pat_completeness auto
termination
proof (relation "measure length")
  show "wf (measure length)" by simp
next
  fix s :: string and tok rest
  assume rest: "rest = dropWhile (\<lambda>c. \<not> is_space c) s" and ne: "rest \<noteq> []"
  from ne obtain c cs where cs: "rest = c # cs" by (cases rest) auto
  have "length (dropWhile is_space rest) \<le> length rest"
    by (rule length_dropWhile_le)
  moreover have "is_space (hd rest)"
    using hd_dropWhile [of "\<lambda>c. \<not> is_space c" s] rest ne by simp
  then have "is_space c"
    using cs by simp
  then have "dropWhile is_space rest = dropWhile is_space cs"
    using cs by simp
  then have "length (dropWhile is_space rest) < length rest"
    using length_dropWhile_le [of is_space cs] cs by simp
  moreover have "length rest \<le> length s"
    unfolding rest by (rule length_dropWhile_le)
  ultimately show "(dropWhile is_space rest, s) \<in> measure length"
    by simp
qed

declare re_split.simps [simp del]

text \<open>
  \<^verbatim>\<open>sequences[0:maxlen]\<close>: a non-negative stop keeps that many leading elements, a
  negative stop counts from the end of the list.
\<close>

definition slice_to :: "'a list \<Rightarrow> int \<Rightarrow> 'a list" where
  "slice_to xs stop =
     (if 0 \<le> stop then take (nat stop) xs else take (length xs - nat (- stop)) xs)"

text \<open>
  \<^verbatim>\<open>np.array(rows)\<close> of a list of lists of floats, kept as its elements in row-major
  order (the only thing \<^verbatim>\<open>reshape\<close> uses). Rows of different lengths do not form an
  array of floats: \<^verbatim>\<open>ValueError\<close>. The rows the encoder builds from a vocabulary whose
  vectors all have the embedding size never differ in length.
\<close>

definition np_array :: "vector list \<Rightarrow> error + real list" where
  "np_array rows =
     (case rows of
        [] \<Rightarrow> Inr []
      | r # rs \<Rightarrow> if list_all (\<lambda>r'. length r' = length r) rs then Inr (concat rows)
                  else Inl ValueError)"

text \<open>
  The dimensions \<^verbatim>\<open>reshape\<close> uses for a requested shape and an array of
  \<open>s_original\<close> elements: at most one dimension may be negative (the unknown dimension, written
  \<^verbatim>\<open>-1\<close>) and is inferred; the product of the dimensions must be the size.
\<close>

definition fix_unknown_dimension :: "int list \<Rightarrow> nat \<Rightarrow> error + nat list" where
  "fix_unknown_dimension dims s_original =
     (let s_known = prod_list (map nat (filter (\<lambda>d. 0 \<le> d) dims));
          unknown = length (filter (\<lambda>d. d < 0) dims)
      in if 1 < unknown then Inl ValueError
         else if unknown = 1 then
           (if s_known = 0 \<or> s_original mod s_known \<noteq> 0 then Inl ValueError
            else Inr (map (\<lambda>d. if d < 0 then s_original div s_known else nat d) dims))
         else if s_original \<noteq> s_known then Inl ValueError
         else Inr (map nat dims))"

text \<open>
  \<^verbatim>\<open>tolist()\<close> of the elements \<open>xs\<close> (row-major) seen with dimensions
  \<open>dims\<close>: the \<open>i\<close>-th entry along the first dimension holds the \<open>i\<close>-th block of
  \<open>prod_list ds\<close> elements. With no dimension left the array is one scalar.
\<close>

fun unflatten :: "nat list \<Rightarrow> real list \<Rightarrow> pyval" where
  "unflatten [] xs = PyFloat (case xs of [] \<Rightarrow> 0 | x # _ \<Rightarrow> x)"
| "unflatten (d # ds) xs =
     PyList (map (\<lambda>i. unflatten ds (take (prod_list ds) (drop (i * prod_list ds) xs))) [0..<d])"

text \<open>\<^verbatim>\<open>np.array(result).reshape(shape).tolist()\<close>\<close>

definition reshape_tolist :: "int list \<Rightarrow> vector list \<Rightarrow> error + pyval" where
  "reshape_tolist shp rows =
     (case np_array rows of
        Inl e \<Rightarrow> Inl e
      | Inr flat \<Rightarrow>
          (case fix_unknown_dimension shp (length flat) of
             Inl e \<Rightarrow> Inl e
           | Inr dims \<Rightarrow> Inr (unflatten dims flat)))"

text \<open>A list of lists of floats as a Python value: what the encoder returns without reshaping.\<close>

definition matrix :: "vector list \<Rightarrow> pyval" where
  "matrix rows = PyList (map (\<lambda>r. PyList (map PyFloat r)) rows)"

section \<open>The transformer\<close>

text \<open>The parameters of \<^verbatim>\<open>TFTextTransformer\<close> that \<^verbatim>\<open>_transform\<close> reads after training.\<close>

record params =
  inputCol :: string
  outputCol :: string
  shape :: "int list"
  embeddingSize :: int
  sequenceLength :: int

definition VOCAB_SIZE :: string where
  "VOCAB_SIZE = ''vocab_size''"

definition EMBEDDING_SIZE :: string where
  "EMBEDDING_SIZE = ''embedding_size''"

text \<open>
  Lines 145 to 148: the rows \<open>vectors\<close> collected from the trained model become a dict, and
  the key \<^verbatim>\<open>"unk"\<close> is set to \<^verbatim>\<open>np.zeros(embeddingSize).tolist()\<close>. The training itself
  (Word2Vec over the jieba tokens) is the library's; its result is the parameter \<open>vectors\<close>.
\<close>

definition word_embedding :: "params \<Rightarrow> (string \<times> vector) list \<Rightarrow> error + vector dict" where
  "word_embedding p vectors =
     (let d = dict_of vectors
      in case np_zeros (embeddingSize p) of
           Inl e \<Rightarrow> Inl e
         | Inr zeros \<Rightarrow> Inr (AList.update ''unk'' zeros d))"

text \<open>Line 151.\<close>

definition not_array_2d :: "params \<Rightarrow> bool" where
  "not_array_2d p = (length (shape p) \<noteq> 2 \<or> shape p ! 0 \<noteq> sequenceLength p)"

text \<open>
  The loop of \<^verbatim>\<open>_pad_sequences\<close>: \<open>k\<close> times, append a fresh zero vector to
  \<^verbatim>\<open>new_sequences\<close>.
\<close>

fun append_zeros :: "int \<Rightarrow> nat \<Rightarrow> vector list \<Rightarrow> error + vector list" where
  "append_zeros E 0 new_sequences = Inr new_sequences"
| "append_zeros E (Suc k) new_sequences =
     (case np_zeros E of
        Inl e \<Rightarrow> Inl e
      | Inr z \<Rightarrow> append_zeros E k (new_sequences @ [z]))"

text \<open>Lines 154 to 162. \<^verbatim>\<open>range(n)\<close> runs \<open>nat n\<close> times.\<close>

definition pad_sequences :: "params \<Rightarrow> vector list \<Rightarrow> int \<Rightarrow> error + vector list" where
  "pad_sequences p sequences maxlen =
     (if int (length sequences) \<le> maxlen then
        (case append_zeros (embeddingSize p) (nat (maxlen - int (length sequences))) [] of
           Inl e \<Rightarrow> Inl e
         | Inr new_sequences \<Rightarrow> Inr (sequences @ new_sequences))
      else Inr (slice_to sequences maxlen))"

text \<open>
  Lines 164 and 165, the list comprehension over the tokens: a token that is a key of the
  vocabulary contributes its vector, any other token contributes nothing.
\<close>

fun new_q :: "vector dict \<Rightarrow> string list \<Rightarrow> error + vector list" where
  "new_q voc [] = Inr []"
| "new_q voc (word # ws) =
     (if dict_contains word voc then
        (case dict_get voc word of
           Inl e \<Rightarrow> Inl e
         | Inr v \<Rightarrow> (case new_q voc ws of Inl e \<Rightarrow> Inl e | Inr vs \<Rightarrow> Inr (v # vs)))
      else new_q voc ws)"

text \<open>Lines 166 to 169: pad or truncate, then reshape when \<^verbatim>\<open>not_array_2d\<close>.\<close>

definition pad_and_shape :: "params \<Rightarrow> vector list \<Rightarrow> error + pyval" where
  "pad_and_shape p q =
     (case pad_sequences p q (sequenceLength p) of
        Inl e \<Rightarrow> Inl e
      | Inr result \<Rightarrow>
          if not_array_2d p then reshape_tolist (shape p) result else Inr (matrix result))"

text \<open>Lines 153 to 169, the encoder, for the broadcast vocabulary \<open>voc\<close>.\<close>

definition convert_word_to_index :: "params \<Rightarrow> vector dict \<Rightarrow> string \<Rightarrow> error + pyval" where
  "convert_word_to_index p voc s =
     (case new_q voc (re_split s) of
        Inl e \<Rightarrow> Inl e
      | Inr q \<Rightarrow> pad_and_shape p q)"

text \<open>
  A dataframe, column by column: each column name with the cells of its rows; two columns
  may have the same name. The cell the user-defined function computes for a row holds what
  the Python function returns or raises (Spark evaluates it only when the dataframe is
  used; its conversion of the returned value to the declared column type is not part of
  the model).
\<close>

datatype cell = StringCell string | IntCell int | NullCell | UdfCell "error + pyval"

type_synonym dataset = "(string \<times> cell list) list"

text \<open>
  Spark compares column names with the resolver of the session: equality when
  \<^verbatim>\<open>spark.sql.caseSensitive\<close> is set, and \<^verbatim>\<open>equalsIgnoreCase\<close> otherwise, which is the
  default. Among the code points below 256 the letters with two cases are \<^verbatim>\<open>A\<close> to
  \<^verbatim>\<open>Z\<close> and \<^verbatim>\<open>0xC0\<close> to \<^verbatim>\<open>0xDE\<close> without \<^verbatim>\<open>0xD7\<close>, each 32 below its lower case.
\<close>

definition lower_code :: "char \<Rightarrow> nat" where
  "lower_code c =
     (let n = (of_char c :: nat)
      in if (65 \<le> n \<and> n \<le> 90) \<or> (192 \<le> n \<and> n \<le> 222 \<and> n \<noteq> 215) then n + 32 else n)"

definition resolver :: "bool \<Rightarrow> string \<Rightarrow> string \<Rightarrow> bool" where
  "resolver caseSensitive a b =
     (if caseSensitive then a = b else map lower_code a = map lower_code b)"

text \<open>
  A column given by its name, as in \<^verbatim>\<open>cwti_udf(self.getInputCol())\<close>, is parsed by
  \<^verbatim>\<open>UnresolvedAttribute.parseAttributeName\<close> of Spark 2: dots separate the parts of the name,
  backticks quote a part. The loop keeps whether it is inside backticks, the part read so
  far, the finished parts and the previous character; a dot as the first character reads
  the character before the string.
\<close>

fun parseAttributeName_from ::
  "bool \<Rightarrow> string \<Rightarrow> string list \<Rightarrow> char option \<Rightarrow> string \<Rightarrow> error + string list" where
  "parseAttributeName_from inBacktick tmp nameParts prev [] =
     (if inBacktick then Inl AnalysisException else Inr (nameParts @ [tmp]))"
| "parseAttributeName_from inBacktick tmp nameParts prev (c # cs) =
     (if inBacktick then
        (if c = CHR 0x60 then
           (case cs of
              [] \<Rightarrow> parseAttributeName_from False tmp nameParts (Some c) cs
            | c' # _ \<Rightarrow>
                if c' \<noteq> CHR ''.'' then Inl AnalysisException
                else parseAttributeName_from False tmp nameParts (Some c) cs)
         else parseAttributeName_from True (tmp @ [c]) nameParts (Some c) cs)
      else if c = CHR 0x60 then
        (if tmp \<noteq> [] then Inl AnalysisException
         else parseAttributeName_from True tmp nameParts (Some c) cs)
      else if c = CHR ''.'' then
        (case prev of
           None \<Rightarrow> Inl StringIndexOutOfBoundsException
         | Some c0 \<Rightarrow>
             if c0 = CHR ''.'' \<or> cs = [] then Inl AnalysisException
             else parseAttributeName_from False [] (nameParts @ [tmp]) (Some c) cs)
      else parseAttributeName_from False (tmp @ [c]) nameParts (Some c) cs)"

definition parseAttributeName :: "string \<Rightarrow> error + string list" where
  "parseAttributeName name = parseAttributeName_from False [] [] None name"

text \<open>The column a name stands for: all columns, or an attribute with the parts of its name.\<close>

datatype column = Star | Attribute "string list"

definition column_of_name :: "string \<Rightarrow> error + column" where
  "column_of_name name =
     (if name = ''*'' then Inr Star
      else if 2 \<le> length name \<and> drop (length name - 2) name = ''.*'' then
        (case parseAttributeName (take (length name - 2) name) of
           Inl e \<Rightarrow> Inl e
         | Inr parts \<Rightarrow> Inr Star)
      else
        (case parseAttributeName name of
           Inl e \<Rightarrow> Inl e
         | Inr parts \<Rightarrow> Inr (Attribute parts)))"

text \<open>
  The cells of the column that the argument of the user-defined function names. The name
  must have one part, and exactly one column of the dataframe must resolve to it: no
  column, or more than one, is an \<^verbatim>\<open>AnalysisException\<close>. The columns of the model have no
  qualifier and no fields, so a name of several parts resolves to nothing, and a star is
  no argument of a Python function.
\<close>

definition resolve_column :: "bool \<Rightarrow> dataset \<Rightarrow> string \<Rightarrow> error + cell list" where
  "resolve_column caseSensitive ds name =
     (case column_of_name name of
        Inl e \<Rightarrow> Inl e
      | Inr Star \<Rightarrow> Inl AnalysisException
      | Inr (Attribute parts) \<Rightarrow>
          (case parts of
             [n] \<Rightarrow>
               (case filter (\<lambda>field. resolver caseSensitive (fst field) n) ds of
                  [field] \<Rightarrow> Inr (snd field)
                | _ \<Rightarrow> Inl AnalysisException)
           | _ \<Rightarrow> Inl AnalysisException))"

text \<open>
  \<^verbatim>\<open>withColumn\<close>: every column whose name resolves to the given name is replaced, in its
  place, by the new column under the given name; when there is none, the new column is
  added at the end.
\<close>

definition withColumn :: "bool \<Rightarrow> string \<Rightarrow> cell list \<Rightarrow> dataset \<Rightarrow> dataset" where
  "withColumn caseSensitive colName cells ds =
     (if list_ex (\<lambda>field. resolver caseSensitive (fst field) colName) ds then
        map (\<lambda>field. if resolver caseSensitive (fst field) colName then (colName, cells)
                      else field) ds
      else ds @ [(colName, cells)])"

text \<open>The user-defined function on a cell: \<^verbatim>\<open>re.split\<close> raises on anything but a string.\<close>

definition cwti_udf :: "params \<Rightarrow> vector dict \<Rightarrow> cell \<Rightarrow> cell" where
  "cwti_udf p voc c =
     (case c of
        StringCell s \<Rightarrow> UdfCell (convert_word_to_index p voc s)
      | _ \<Rightarrow> UdfCell (Inl TypeError))"

text \<open>
  \<^verbatim>\<open>_transform\<close>, in a session with the given case sensitivity. The input column is
  resolved first (line 134, and again at line 176). The training of line 133 is the
  library's: \<open>fit\<close> is what it gave, the collected rows of \<^verbatim>\<open>getVectors()\<close> or the
  exception it raised. \<^verbatim>\<open>lit(c)\<close> is the column holding \<open>c\<close> on every row.
\<close>

definition transform ::
  "bool \<Rightarrow> params \<Rightarrow> error + (string \<times> vector) list \<Rightarrow> dataset \<Rightarrow> error + dataset" where
  "transform caseSensitive p fit dataset =
     (case resolve_column caseSensitive dataset (inputCol p) of
        Inl e \<Rightarrow> Inl e
      | Inr texts \<Rightarrow>
          (case fit of
             Inl e \<Rightarrow> Inl e
           | Inr vectors \<Rightarrow>
               (case word_embedding p vectors of
                  Inl e \<Rightarrow> Inl e
                | Inr voc \<Rightarrow>
                    (let n = length texts;
                         d1 = withColumn caseSensitive (outputCol p)
                                (map (cwti_udf p voc) texts) dataset;
                         d2 = withColumn caseSensitive VOCAB_SIZE
                                (replicate n (IntCell (int (length voc)))) d1;
                         d3 = withColumn caseSensitive EMBEDDING_SIZE
                                (replicate n (IntCell (embeddingSize p))) d2
                     in Inr d3))))"

section \<open>The encoder on a heap\<close>

text \<open>
  The pure encoder above takes the vocabulary as a value. In Python the vocabulary is a
  dict of list objects, and the list the comprehension builds holds references to these
  very objects. The state a call of the closure can reach is modelled here with a heap:
  list objects at addresses, a list of floats or a list of references, and the broadcast
  dict from words to the addresses of their vectors. A call takes the state and returns
  its result with the state it leaves.
\<close>

datatype obj = FloatList "real list" | RefList "nat list"

record pystate =
  heap :: "nat \<Rightarrow> obj option"
  next_address :: nat
  broadcast :: "nat dict"

text \<open>A new list object: it gets the next address.\<close>

definition alloc :: "obj \<Rightarrow> pystate \<Rightarrow> nat \<times> pystate" where
  "alloc ob st =
     (next_address st,
      st\<lparr>heap := (heap st)(next_address st \<mapsto> ob), next_address := Suc (next_address st)\<rparr>)"

text \<open>Reading a list of references, a list of floats, and the rows a list of references holds.\<close>

definition refs_at :: "pystate \<Rightarrow> nat \<Rightarrow> error + nat list" where
  "refs_at st a = (case heap st a of Some (RefList rs) \<Rightarrow> Inr rs | _ \<Rightarrow> Inl TypeError)"

definition floats_at :: "pystate \<Rightarrow> nat \<Rightarrow> error + vector" where
  "floats_at st a = (case heap st a of Some (FloatList v) \<Rightarrow> Inr v | _ \<Rightarrow> Inl TypeError)"

fun rows_at :: "pystate \<Rightarrow> nat list \<Rightarrow> error + vector list" where
  "rows_at st [] = Inr []"
| "rows_at st (a # as) =
     (case floats_at st a of
        Inl e \<Rightarrow> Inl e
      | Inr v \<Rightarrow> (case rows_at st as of Inl e \<Rightarrow> Inl e | Inr vs \<Rightarrow> Inr (v # vs)))"

text \<open>\<^verbatim>\<open>np.zeros(n).tolist()\<close> builds a new list of floats.\<close>

definition np_zeros_st :: "int \<Rightarrow> pystate \<Rightarrow> (error + nat) \<times> pystate" where
  "np_zeros_st n st =
     (case np_zeros n of
        Inl e \<Rightarrow> (Inl e, st)
      | Inr z \<Rightarrow> (let (a, st') = alloc (FloatList z) st in (Inr a, st')))"

text \<open>\<^verbatim>\<open>l.append(x)\<close> changes the list object at \<open>l\<close> in place.\<close>

definition list_append :: "nat \<Rightarrow> nat \<Rightarrow> pystate \<Rightarrow> (error + unit) \<times> pystate" where
  "list_append l x st =
     (case refs_at st l of
        Inl e \<Rightarrow> (Inl e, st)
      | Inr rs \<Rightarrow> (Inr (), st\<lparr>heap := (heap st)(l \<mapsto> RefList (rs @ [x]))\<rparr>))"

text \<open>The loop of \<^verbatim>\<open>_pad_sequences\<close> on the heap.\<close>

fun append_zeros_st :: "int \<Rightarrow> nat \<Rightarrow> nat \<Rightarrow> pystate \<Rightarrow> (error + unit) \<times> pystate" where
  "append_zeros_st E 0 new_sequences st = (Inr (), st)"
| "append_zeros_st E (Suc k) new_sequences st =
     (case np_zeros_st E st of
        (Inl e, st1) \<Rightarrow> (Inl e, st1)
      | (Inr z, st1) \<Rightarrow>
          (case list_append new_sequences z st1 of
             (Inl e, st2) \<Rightarrow> (Inl e, st2)
           | (Inr u, st2) \<Rightarrow> append_zeros_st E k new_sequences st2))"

text \<open>
  \<^verbatim>\<open>_pad_sequences\<close> on the heap: \<^verbatim>\<open>new_sequences = []\<close> is a new list, the loop appends
  to it, \<^verbatim>\<open>sequences + new_sequences\<close> and \<^verbatim>\<open>sequences[0:maxlen]\<close> build new lists that
  hold the references of the old ones.
\<close>

definition pad_sequences_st ::
  "params \<Rightarrow> nat \<Rightarrow> int \<Rightarrow> pystate \<Rightarrow> (error + nat) \<times> pystate" where
  "pad_sequences_st p sequences maxlen st =
     (let (new_sequences, st1) = alloc (RefList []) st
      in case refs_at st1 sequences of
           Inl e \<Rightarrow> (Inl e, st1)
         | Inr xs \<Rightarrow>
             if int (length xs) \<le> maxlen then
               (case append_zeros_st (embeddingSize p) (nat (maxlen - int (length xs)))
                       new_sequences st1 of
                  (Inl e, st2) \<Rightarrow> (Inl e, st2)
                | (Inr u, st2) \<Rightarrow>
                    (case refs_at st2 new_sequences of
                       Inl e \<Rightarrow> (Inl e, st2)
                     | Inr ys \<Rightarrow> (let (r, st3) = alloc (RefList (xs @ ys)) st2 in (Inr r, st3))))
             else (let (r, st2) = alloc (RefList (slice_to xs maxlen)) st1 in (Inr r, st2)))"

text \<open>
  The list comprehension on the heap: \<^verbatim>\<open>local_word_embedding.value[word]\<close> is the
  reference stored in the dict, and the comprehension builds a new list of these.
\<close>

fun new_q_refs :: "nat dict \<Rightarrow> string list \<Rightarrow> error + nat list" where
  "new_q_refs d [] = Inr []"
| "new_q_refs d (word # ws) =
     (if dict_contains word d then
        (case dict_get d word of
           Inl e \<Rightarrow> Inl e
         | Inr a \<Rightarrow> (case new_q_refs d ws of Inl e \<Rightarrow> Inl e | Inr as \<Rightarrow> Inr (a # as)))
      else new_q_refs d ws)"

definition new_q_st :: "string list \<Rightarrow> pystate \<Rightarrow> (error + nat) \<times> pystate" where
  "new_q_st toks st =
     (case new_q_refs (broadcast st) toks of
        Inl e \<Rightarrow> (Inl e, st)
      | Inr refs \<Rightarrow> (let (a, st') = alloc (RefList refs) st in (Inr a, st')))"

text \<open>
  The encoder on the heap. What it returns is read off the heap when it returns, as the
  serialisation of the result does; \<^verbatim>\<open>np.array(result)\<close> copies the floats.
\<close>

definition convert_word_to_index_st ::
  "params \<Rightarrow> string \<Rightarrow> pystate \<Rightarrow> (error + pyval) \<times> pystate" where
  "convert_word_to_index_st p s st =
     (case new_q_st (re_split s) st of
        (Inl e, st1) \<Rightarrow> (Inl e, st1)
      | (Inr q, st1) \<Rightarrow>
          (case pad_sequences_st p q (sequenceLength p) st1 of
             (Inl e, st2) \<Rightarrow> (Inl e, st2)
           | (Inr result, st2) \<Rightarrow>
               (case refs_at st2 result of
                  Inl e \<Rightarrow> (Inl e, st2)
                | Inr refs \<Rightarrow>
                    (case rows_at st2 refs of
                       Inl e \<Rightarrow> (Inl e, st2)
                     | Inr rows \<Rightarrow>
                         if not_array_2d p then (reshape_tolist (shape p) rows, st2)
                         else (Inr (matrix rows), st2)))))"

text \<open>The state after the encoder has been applied to some strings, one after the other.\<close>

fun after_calls :: "params \<Rightarrow> string list \<Rightarrow> pystate \<Rightarrow> pystate" where
  "after_calls p [] st = st"
| "after_calls p (s # ss) st = after_calls p ss (snd (convert_word_to_index_st p s st))"

text \<open>What these applications return, row by row.\<close>

fun outputs_of_calls :: "params \<Rightarrow> string list \<Rightarrow> pystate \<Rightarrow> (error + pyval) list" where
  "outputs_of_calls p [] st = []"
| "outputs_of_calls p (s # ss) st =
     fst (convert_word_to_index_st p s st)
       # outputs_of_calls p ss (snd (convert_word_to_index_st p s st))"

text \<open>
  A state is well formed when every word of the broadcast dict refers to a list of floats
  allocated earlier. The vocabulary a state denotes maps every word to these floats.
\<close>

fun is_float_list :: "obj option \<Rightarrow> bool" where
  "is_float_list (Some (FloatList v)) = True"
| "is_float_list _ = False"

fun floats_of :: "obj option \<Rightarrow> vector" where
  "floats_of (Some (FloatList v)) = v"
| "floats_of _ = []"

definition wf_state :: "pystate \<Rightarrow> bool" where
  "wf_state st =
     list_all (\<lambda>entry. snd entry < next_address st \<and> is_float_list (heap st (snd entry)))
       (broadcast st)"

definition vocabulary :: "pystate \<Rightarrow> vector dict" where
  "vocabulary st = map (\<lambda>entry. (fst entry, floats_of (heap st (snd entry)))) (broadcast st)"

text \<open>
  The state of a worker that holds the vocabulary \<open>voc\<close>: every vector is a list object
  of its own, at the address of its position.
\<close>

definition state_of :: "vector dict \<Rightarrow> pystate" where
  "state_of voc =
     \<lparr>heap = (\<lambda>a. if a < length voc then Some (FloatList (snd (voc ! a))) else None),
      next_address = length voc,
      broadcast = zip (map fst voc) [0..<length voc]\<rparr>"

text \<open>Nothing allocated below the address \<open>b\<close> has changed, and the dict is the same.\<close>

definition unchanged_below :: "nat \<Rightarrow> pystate \<Rightarrow> pystate \<Rightarrow> bool" where
  "unchanged_below b st st' =
     (broadcast st' = broadcast st \<and> next_address st \<le> next_address st' \<and>
      (\<forall>a<b. heap st' a = heap st a))"

section \<open>Notions of the specification\<close>

text \<open>
  The vocabulary-matched tokens of an input string, and their looked-up vectors in token
  order. These two follow the wording of the specification; the encoder's own list
  comprehension is \<^const>\<open>new_q\<close>.
\<close>

definition matched_tokens :: "vector dict \<Rightarrow> string \<Rightarrow> string list" where
  "matched_tokens voc s = filter (\<lambda>w. w \<in> fst ` set voc) (re_split s)"

definition looked_up :: "vector dict \<Rightarrow> string \<Rightarrow> vector list" where
  "looked_up voc s = map (\<lambda>w. the (map_of voc w)) (matched_tokens voc s)"

section \<open>Example configurations\<close>

text \<open>
  The example of the specification: embedding size 4, sequence length 3, the
  two-dimensional shape \<^verbatim>\<open>(3, 4)\<close>, and a vocabulary with the words cat and dog.
\<close>

definition example_params :: params where
  "example_params =
     \<lparr>inputCol = ''text'', outputCol = ''features'', shape = [3, 4],
      embeddingSize = 4, sequenceLength = 3\<rparr>"

definition example_voc :: "vector dict" where
  "example_voc = [(''cat'', [1, 0, 0, 0]), (''dog'', [0, 1, 0, 0]), (''unk'', [0, 0, 0, 0])]"

text \<open>Sequence length 4, embedding size 2 and the flat shape \<^verbatim>\<open>(8,)\<close>.\<close>

definition flat_params :: params where
  "flat_params =
     \<lparr>inputCol = ''text'', outputCol = ''features'', shape = [8],
      embeddingSize = 2, sequenceLength = 4\<rparr>"

definition flat_voc :: "vector dict" where
  "flat_voc = [(''a'', [1, 2]), (''b'', [3, 4]), (''unk'', [0, 0])]"

text \<open>The same parameters under other column names, the same vocabulary stored in another order.\<close>

definition renamed_params :: params where
  "renamed_params =
     \<lparr>inputCol = ''body'', outputCol = ''encoded'', shape = [8],
      embeddingSize = 2, sequenceLength = 4\<rparr>"

definition reordered_voc :: "vector dict" where
  "reordered_voc = [(''unk'', [0, 0]), (''b'', [3, 4]), (''a'', [1, 2])]"

text \<open>
  A two-dimensional shape whose first dimension is the sequence length and whose second
  dimension is not the embedding size.
\<close>

definition narrow_params :: params where
  "narrow_params =
     \<lparr>inputCol = ''text'', outputCol = ''features'', shape = [1, 3],
      embeddingSize = 2, sequenceLength = 1\<rparr>"

text \<open>Sequence length 1 and embedding size 1, and a dataset of one row.\<close>

definition unit_params :: params where
  "unit_params =
     \<lparr>inputCol = ''text'', outputCol = ''features'', shape = [1, 1],
      embeddingSize = 1, sequenceLength = 1\<rparr>"

text \<open>The output column named like the vocabulary size column.\<close>

definition clash_params :: params where
  "clash_params =
     \<lparr>inputCol = ''text'', outputCol = ''vocab_size'', shape = [1, 1],
      embeddingSize = 1, sequenceLength = 1\<rparr>"

text \<open>The output column named like the vocabulary size column but for the case of two letters.\<close>

definition capital_params :: params where
  "capital_params =
     \<lparr>inputCol = ''TEXT'', outputCol = ''Vocab_Size'', shape = [1, 1],
      embeddingSize = 1, sequenceLength = 1\<rparr>"

definition example_dataset :: dataset where
  "example_dataset = [(''id'', [IntCell 7]), (''text'', [StringCell ''unk''])]"

text \<open>A state that denotes the vocabulary of the flat example.\<close>

definition example_state :: pystate where
  "example_state =
     \<lparr>heap = [0 \<mapsto> FloatList [1, 2], 1 \<mapsto> FloatList [3, 4], 2 \<mapsto> FloatList [0, 0]],
      next_address = 3,
      broadcast = [(''a'', 0), (''b'', 1), (''unk'', 2)]\<rparr>"

text \<open>Sequence length 4 and embedding size 2 with the shape \<^verbatim>\<open>(4, 2)\<close>.\<close>

definition matrix_params :: params where
  "matrix_params =
     \<lparr>inputCol = ''text'', outputCol = ''features'', shape = [4, 2],
      embeddingSize = 2, sequenceLength = 4\<rparr>"

section \<open>The tokens of the examples\<close>

lemma split_a: "re_split ''a'' = [''a'']"
  by (simp add: re_split.simps is_space_def)

lemma split_a_b: "re_split ''a b'' = [''a'', ''b'']"
  by (simp add: re_split.simps is_space_def)

lemma split_a_b_a_b_a: "re_split ''a b a b a'' = [''a'', ''b'', ''a'', ''b'', ''a'']"
  by (simp add: re_split.simps is_space_def)

lemma split_unk: "re_split ''unk'' = [''unk'']"
  by (simp add: re_split.simps is_space_def)

lemma split_cat_unk: "re_split ''cat unk'' = [''cat'', ''unk'']"
  by (simp add: re_split.simps is_space_def)

lemma split_cat_dog_bird: "re_split ''cat dog bird'' = [''cat'', ''dog'', ''bird'']"
  by (simp add: re_split.simps is_space_def)

lemma split_cat_bird_dog: "re_split ''cat bird dog'' = [''cat'', ''bird'', ''dog'']"
  by (simp add: re_split.simps is_space_def)

lemma split_cat_dog_cat_dog: "re_split ''cat dog cat dog'' = [''cat'', ''dog'', ''cat'', ''dog'']"
  by (simp add: re_split.simps is_space_def)

text \<open>Leading and trailing whitespace leave an empty piece, a run of whitespace is one match.\<close>

lemma split_outer_whitespace: "re_split '' cat  dog '' = ['''', ''cat'', ''dog'', '''']"
  by (simp add: re_split.simps is_space_def)

text \<open>The separators \<^verbatim>\<open>0x1C\<close> to \<^verbatim>\<open>0x1F\<close>, \<^verbatim>\<open>0x85\<close> and \<^verbatim>\<open>0xA0\<close> split as a space does.\<close>

lemma split_separators:
  "re_split (''a'' @ [CHR 0x1C] @ ''b a b a'') = [''a'', ''b'', ''a'', ''b'', ''a'']"
  "re_split (''b'' @ [CHR 0x1D, CHR 0x1E] @ ''a'' @ [CHR 0x1F] @ ''a'') = [''b'', ''a'', ''a'']"
  "re_split (''cat'' @ [CHR 0xA0] @ ''unk'' @ [CHR 0x85] @ ''dog'') = [''cat'', ''unk'', ''dog'']"
  by (simp_all add: re_split.simps is_space_def)

section \<open>The list comprehension\<close>

lemma dict_get_contains:
  "dict_contains w voc \<Longrightarrow> dict_get voc w = Inr (the (map_of voc w))"
  by (auto simp: dict_contains_def dict_get_def map_of_eq_None_iff split: option.splits)

text \<open>The comprehension never raises: the membership test guards the lookup.\<close>

lemma new_q_tokens:
  "new_q voc ws = Inr (map (\<lambda>w. the (map_of voc w)) (filter (\<lambda>w. w \<in> fst ` set voc) ws))"
proof (induction ws)
  case Nil
  show ?case by simp
next
  case (Cons w ws)
  show ?case
  proof (cases "dict_contains w voc")
    case True
    then have "w \<in> fst ` set voc" by (simp add: dict_contains_def)
    then show ?thesis using True Cons by (simp add: dict_get_contains)
  next
    case False
    then have "w \<notin> fst ` set voc" by (simp add: dict_contains_def)
    then show ?thesis using False Cons by simp
  qed
qed

lemma new_q_looked_up: "new_q voc (re_split s) = Inr (looked_up voc s)"
  by (simp add: new_q_tokens looked_up_def matched_tokens_def)

lemma length_looked_up: "length (looked_up voc s) = length (matched_tokens voc s)"
  by (simp add: looked_up_def)

lemma convert_unfold:
  "convert_word_to_index p voc s = pad_and_shape p (looked_up voc s)"
  by (simp add: convert_word_to_index_def new_q_looked_up)

lemma looked_up_lengths:
  assumes "\<forall>v \<in> snd ` set voc. length v = e"
  shows "\<forall>r \<in> set (looked_up voc s). length r = e"
proof
  fix r assume "r \<in> set (looked_up voc s)"
  then obtain w where w: "w \<in> fst ` set voc" and r: "r = the (map_of voc w)"
    by (auto simp: looked_up_def matched_tokens_def)
  from w obtain v where v: "map_of voc w = Some v"
    by (cases "map_of voc w") (auto simp: map_of_eq_None_iff)
  then have "(w, v) \<in> set voc" by (rule map_of_SomeD)
  then have "v \<in> snd ` set voc" by force
  then have "length v = e" using assms by blast
  then show "length r = e" using r v by simp
qed

lemma looked_up_cong:
  assumes "map_of voc = map_of voc'"
  shows "looked_up voc s = looked_up voc' s"
proof -
  have "dom (map_of voc) = dom (map_of voc')" using assms by simp
  then have "fst ` set voc = fst ` set voc'" by (simp add: dom_map_of_conv_image_fst)
  then show ?thesis using assms by (simp add: looked_up_def matched_tokens_def)
qed

section \<open>Padding and truncation\<close>

lemma append_zeros_ok:
  "0 \<le> E \<Longrightarrow> append_zeros E k acc = Inr (acc @ replicate k (replicate (nat E) 0))"
proof (induction k arbitrary: acc)
  case 0
  show ?case by simp
next
  case (Suc k)
  then show ?case by (simp add: np_zeros_def replicate_app_Cons_same)
qed

lemma pad_sequences_short:
  assumes "int (length q) \<le> L" and "0 \<le> embeddingSize p"
  shows "pad_sequences p q L =
           Inr (q @ replicate (nat L - length q) (replicate (nat (embeddingSize p)) 0))"
proof -
  have "nat (L - int (length q)) = nat L - length q" using assms(1) by simp
  then show ?thesis using assms by (simp add: pad_sequences_def append_zeros_ok)
qed

lemma pad_sequences_long:
  assumes "L < int (length q)" and "0 \<le> L"
  shows "pad_sequences p q L = Inr (take (nat L) q)"
  using assms by (simp add: pad_sequences_def slice_to_def)

text \<open>A negative embedding size makes the first zero vector fail.\<close>

lemma pad_sequences_negative_size:
  assumes "int (length q) < L" and "embeddingSize p < 0"
  shows "pad_sequences p q L = Inl ValueError"
proof -
  from assms(1) obtain k where "nat (L - int (length q)) = Suc k"
    by (cases "nat (L - int (length q))") auto
  then show ?thesis using assms by (simp add: pad_sequences_def np_zeros_def)
qed

text \<open>A negative sequence length cuts from the end of the list.\<close>

lemma pad_sequences_negative_length:
  "L < 0 \<Longrightarrow> pad_sequences p q L = Inr (take (length q - nat (- L)) q)"
  by (simp add: pad_sequences_def slice_to_def)

lemma pad_sequences_rows:
  assumes "0 \<le> L" and "0 \<le> embeddingSize p"
  shows "pad_sequences p q L =
           Inr (take (nat L) (q @ replicate (nat L) (replicate (nat (embeddingSize p)) 0)))"
proof (cases "int (length q) \<le> L")
  case True
  then show ?thesis using assms by (simp add: pad_sequences_short)
next
  case False
  then show ?thesis using assms by (simp add: pad_sequences_long)
qed

lemma pad_sequences_cong:
  "embeddingSize p = embeddingSize p' \<Longrightarrow> pad_sequences p q L = pad_sequences p' q L"
  by (simp add: pad_sequences_def)

section \<open>The reshape test and the flat reshape\<close>

lemma not_array_2d_iff: "not_array_2d p \<longleftrightarrow> (\<forall>x. shape p \<noteq> [sequenceLength p, x])"
proof (cases "shape p")
  case Nil
  then show ?thesis by (simp add: not_array_2d_def)
next
  case (Cons a as)
  then show ?thesis
    by (cases as) (auto simp: not_array_2d_def length_Suc_conv)
qed

lemma pad_and_shape_cong:
  assumes "sequenceLength p = sequenceLength p'" and "embeddingSize p = embeddingSize p'"
    and "shape p = shape p'"
  shows "pad_and_shape p q = pad_and_shape p' q"
proof -
  have n: "not_array_2d p = not_array_2d p'"
    using assms(1,3) by (simp add: not_array_2d_def)
  have ps: "pad_sequences p q (sequenceLength p) = pad_sequences p' q (sequenceLength p')"
    using assms(1) pad_sequences_cong [OF assms(2), of q "sequenceLength p'"] by simp
  show ?thesis
    by (simp only: pad_and_shape_def n ps assms(3))
qed

text \<open>
  The result depends on the vocabulary through its mapping only, and on the parameters
  through the sequence length, the embedding size and the shape only.
\<close>

lemma convert_word_to_index_cong:
  assumes "map_of voc = map_of voc'"
    and "sequenceLength p = sequenceLength p'" and "embeddingSize p = embeddingSize p'"
    and "shape p = shape p'"
  shows "convert_word_to_index p voc s = convert_word_to_index p' voc' s"
  using looked_up_cong [OF assms(1), of s] pad_and_shape_cong [OF assms(2,3,4)]
  by (simp add: convert_unfold)

lemma convert_word_to_index_reordered:
  "convert_word_to_index flat_params flat_voc s
     = convert_word_to_index renamed_params reordered_voc s"
proof (rule convert_word_to_index_cong)
  show "map_of flat_voc = map_of reordered_voc"
    by (rule ext) (simp add: flat_voc_def reordered_voc_def)
qed (simp_all add: flat_params_def renamed_params_def)

lemma np_array_uniform:
  assumes "\<forall>r \<in> set rows. length r = e"
  shows "np_array rows = Inr (concat rows)"
  using assms by (cases rows) (auto simp: np_array_def list_all_iff)

lemma length_concat_uniform:
  "\<forall>r \<in> set rows. length r = e \<Longrightarrow> length (concat rows) = length rows * e"
  by (induction rows) auto

lemma unflatten_flat:
  assumes "length xs = n"
  shows "unflatten [n] xs = PyList (map PyFloat xs)"
proof -
  have "map (\<lambda>i. unflatten [] (take (prod_list []) (drop (i * prod_list []) xs))) [0..<n]
        = map (\<lambda>i. PyFloat (xs ! i)) [0..<n]"
  proof (rule map_cong [OF refl])
    fix i assume "i \<in> set [0..<n]"
    then have "i < length xs" using assms by simp
    then have "drop i xs = xs ! i # drop (Suc i) xs"
      by (simp add: Cons_nth_drop_Suc)
    then show "unflatten [] (take (prod_list []) (drop (i * prod_list []) xs)) = PyFloat (xs ! i)"
      by simp
  qed
  also have "\<dots> = map PyFloat (map (\<lambda>i. xs ! i) [0..<n])"
    by simp
  also have "map (\<lambda>i. xs ! i) [0..<n] = xs"
    using assms map_nth [of xs] by simp
  finally show ?thesis by simp
qed

text \<open>
  A one-dimensional shape that asks for all the elements, or leaves its dimension to be
  inferred, lists the elements row by row.
\<close>

lemma reshape_tolist_flat:
  assumes "\<forall>r \<in> set rows. length r = e" and "d = int (length rows * e) \<or> d < 0"
  shows "reshape_tolist [d] rows = Inr (PyList (map PyFloat (concat rows)))"
proof -
  have len: "length (concat rows) = length rows * e"
    using assms(1) by (rule length_concat_uniform)
  have "fix_unknown_dimension [d] (length rows * e) = Inr [length rows * e]"
  proof (cases "d < 0")
    case True
    then show ?thesis by (simp add: fix_unknown_dimension_def)
  next
    case False
    then have "d = int (length rows * e)" using assms(2) by simp
    then have "0 \<le> d" and "nat d = length rows * e"
      using nat_int [of "length rows * e"] by auto
    then show ?thesis by (simp add: fix_unknown_dimension_def)
  qed
  moreover have "np_array rows = Inr (concat rows)"
    using assms(1) by (rule np_array_uniform)
  moreover have "unflatten [length rows * e] (concat rows) = PyList (map PyFloat (concat rows))"
    using len by (rule unflatten_flat)
  ultimately show ?thesis
    by (simp add: reshape_tolist_def len del: unflatten.simps)
qed

section \<open>The vocabulary and the dataframe\<close>

lemma dict_of_fold:
  "distinct (map fst acc) \<Longrightarrow>
     distinct (map fst (foldl (\<lambda>d kv. AList.update (fst kv) (snd kv) d) acc pairs))
     \<and> fst ` set (foldl (\<lambda>d kv. AList.update (fst kv) (snd kv) d) acc pairs)
         = fst ` set acc \<union> fst ` set pairs"
proof (induction pairs arbitrary: acc)
  case Nil
  then show ?case by simp
next
  case (Cons kv pairs)
  have "distinct (map fst (AList.update (fst kv) (snd kv) acc))"
    using Cons.prems by (rule distinct_update)
  from Cons.IH [OF this] show ?case
    by (auto simp: dom_update)
qed

lemma distinct_dict_of: "distinct (map fst (dict_of pairs))"
  using dict_of_fold [of "[]" pairs] by (simp add: dict_of_def)

lemma keys_dict_of: "fst ` set (dict_of pairs) = fst ` set pairs"
  using dict_of_fold [of "[]" pairs] by (simp add: dict_of_def)

text \<open>\<^verbatim>\<open>len\<close> of a dict counts its distinct keys.\<close>

lemma length_dict_of: "length (dict_of pairs) = card (fst ` set pairs)"
proof -
  have "card (set (map fst (dict_of pairs))) = length (map fst (dict_of pairs))"
    using distinct_dict_of by (rule distinct_card)
  then show ?thesis using keys_dict_of [of pairs] by simp
qed

lemma length_update:
  "length (AList.update k v al) = (if k \<in> fst ` set al then length al else Suc (length al))"
  by (induction al) auto

lemma update_fresh: "k \<notin> fst ` set al \<Longrightarrow> AList.update k v al = al @ [(k, v)]"
  by (induction al) auto

lemma word_embedding_ok:
  "0 \<le> embeddingSize p \<Longrightarrow>
     word_embedding p vectors
       = Inr (AList.update ''unk'' (replicate (nat (embeddingSize p)) 0) (dict_of vectors))"
  by (simp add: word_embedding_def np_zeros_def)

lemma word_embedding_fails:
  "embeddingSize p < 0 \<Longrightarrow> word_embedding p vectors = Inl ValueError"
  by (simp add: word_embedding_def np_zeros_def)

lemma word_embedding_InrD:
  assumes "word_embedding p vectors = Inr voc"
  shows "0 \<le> embeddingSize p"
    and "voc = AList.update ''unk'' (replicate (nat (embeddingSize p)) 0) (dict_of vectors)"
proof -
  show e: "0 \<le> embeddingSize p"
    using assms word_embedding_fails [of p vectors] by (cases "embeddingSize p < 0") auto
  show "voc = AList.update ''unk'' (replicate (nat (embeddingSize p)) 0) (dict_of vectors)"
    using assms word_embedding_ok [OF e, of vectors] by simp
qed

lemma vocab_length:
  "int (length (AList.update ''unk'' z (dict_of vectors)))
     = int (card (fst ` set vectors)) + (if ''unk'' \<in> fst ` set vectors then 0 else 1)"
  by (simp add: length_update keys_dict_of length_dict_of)

lemma resolver_refl: "resolver caseSensitive a a"
  by (simp add: resolver_def)

lemma resolver_size_columns: "\<not> resolver caseSensitive VOCAB_SIZE EMBEDDING_SIZE"
  by (simp add: resolver_def VOCAB_SIZE_def EMBEDDING_SIZE_def)

text \<open>After \<^verbatim>\<open>withColumn\<close> the column of the given name holds the new cells.\<close>

lemma map_of_replaced:
  assumes "list_ex (\<lambda>field. resolver cs (fst field) name) ds"
  shows "map_of (map (\<lambda>field. if resolver cs (fst field) name then (name, cells) else field) ds)
           name = Some cells"
  using assms
proof (induction ds)
  case Nil
  then show ?case by simp
next
  case (Cons f ds)
  show ?case
  proof (cases "resolver cs (fst f) name")
    case True
    then show ?thesis by simp
  next
    case False
    then have "fst f \<noteq> name" using resolver_refl [of cs name] by auto
    moreover have "list_ex (\<lambda>field. resolver cs (fst field) name) ds"
      using Cons.prems False by simp
    ultimately show ?thesis using Cons.IH False by (cases f) simp
  qed
qed

lemma map_of_withColumn_same: "map_of (withColumn cs name cells ds) name = Some cells"
proof (cases "list_ex (\<lambda>field. resolver cs (fst field) name) ds")
  case True
  then show ?thesis by (simp add: withColumn_def map_of_replaced)
next
  case False
  then have "name \<notin> fst ` set ds"
    using resolver_refl [of cs name] by (auto simp: list_ex_iff)
  then have "map_of ds name = None" by (simp add: map_of_eq_None_iff)
  then show ?thesis using False by (simp add: withColumn_def map_add_def)
qed

text \<open>A column whose name does not resolve to the given name is left as it is.\<close>

lemma map_of_kept:
  assumes "\<not> resolver cs name' name"
  shows "map_of (map (\<lambda>field. if resolver cs (fst field) name then (name, cells) else field) ds)
           name' = map_of ds name'"
proof (induction ds)
  case Nil
  show ?case by simp
next
  case (Cons f ds)
  have ne: "name \<noteq> name'" using assms resolver_refl [of cs name] by auto
  show ?case
  proof (cases "fst f = name'")
    case True
    then have "\<not> resolver cs (fst f) name" using assms by simp
    then show ?thesis using True Cons.IH by (cases f) simp
  next
    case False
    then show ?thesis using ne Cons.IH by (cases f) auto
  qed
qed

lemma map_of_withColumn_other:
  assumes "\<not> resolver cs name' name"
  shows "map_of (withColumn cs name cells ds) name' = map_of ds name'"
proof -
  have "name \<noteq> name'" using assms resolver_refl [of cs name] by auto
  then show ?thesis
    using assms by (simp add: withColumn_def map_of_kept map_add_def split: option.splits)
qed

lemma withColumn_fresh:
  assumes "\<forall>c \<in> fst ` set ds. \<not> resolver cs c name"
  shows "withColumn cs name cells ds = ds @ [(name, cells)]"
  using assms by (auto simp: withColumn_def list_ex_iff)

lemma transform_ok:
  assumes "resolve_column cs ds (inputCol p) = Inr texts" and "0 \<le> embeddingSize p"
  shows "transform cs p (Inr vectors) ds =
     Inr (withColumn cs EMBEDDING_SIZE (replicate (length texts) (IntCell (embeddingSize p)))
           (withColumn cs VOCAB_SIZE
              (replicate (length texts)
                 (IntCell (int (length (AList.update ''unk''
                    (replicate (nat (embeddingSize p)) 0) (dict_of vectors))))))
              (withColumn cs (outputCol p)
                 (map (cwti_udf p (AList.update ''unk''
                    (replicate (nat (embeddingSize p)) 0) (dict_of vectors))) texts) ds)))"
  using assms by (simp add: transform_def word_embedding_ok Let_def)

text \<open>
  Without a column for the input name, after a failed training, or with a negative
  embedding size, nothing is returned.
\<close>

lemma transform_fails:
  "resolve_column cs ds (inputCol p) = Inl e \<Longrightarrow> transform cs p fit ds = Inl e"
  "resolve_column cs ds (inputCol p) = Inr texts \<Longrightarrow> transform cs p (Inl e) ds = Inl e"
  "resolve_column cs ds (inputCol p) = Inr texts \<Longrightarrow> embeddingSize p < 0 \<Longrightarrow>
     transform cs p (Inr vectors) ds = Inl ValueError"
  by (simp_all add: transform_def word_embedding_fails)

text \<open>The names of the example dataset, with and without regard to case.\<close>

lemma resolve_text:
  "resolve_column cs example_dataset ''text'' = Inr [StringCell ''unk'']"
  by (simp add: resolve_column_def column_of_name_def parseAttributeName_def example_dataset_def
      resolver_def lower_code_def)

lemma resolve_capital_text:
  "resolve_column False example_dataset ''TEXT'' = Inr [StringCell ''unk'']"
  "resolve_column True example_dataset ''TEXT'' = Inl AnalysisException"
  by (simp_all add: resolve_column_def column_of_name_def parseAttributeName_def
      example_dataset_def resolver_def lower_code_def)

section \<open>The encoder on a heap and the pure encoder\<close>

lemma rows_at_unchanged:
  "\<forall>r \<in> set refs. heap st' r = heap st r \<Longrightarrow> rows_at st' refs = rows_at st refs"
proof (induction refs)
  case Nil
  show ?case by simp
next
  case (Cons a refs)
  then have "rows_at st' refs = rows_at st refs" and "floats_at st' a = floats_at st a"
    by (simp_all add: floats_at_def)
  then show ?case by (simp split: sum.splits)
qed

lemma is_float_list_iff: "is_float_list x \<longleftrightarrow> (\<exists>v. x = Some (FloatList v))"
  by (cases x rule: is_float_list.cases) auto

lemma rows_at_length: "rows_at st refs = Inr vs \<Longrightarrow> length vs = length refs"
  by (induction refs arbitrary: vs) (auto split: sum.splits)

lemma rows_at_append:
  "rows_at st xs = Inr vs \<Longrightarrow> rows_at st ys = Inr ws \<Longrightarrow> rows_at st (xs @ ys) = Inr (vs @ ws)"
  by (induction xs arbitrary: vs) (auto split: sum.splits)

lemma rows_at_take:
  "rows_at st xs = Inr vs \<Longrightarrow> rows_at st (take n xs) = Inr (take n vs)"
proof (induction xs arbitrary: vs n)
  case Nil
  then show ?case by simp
next
  case (Cons x xs)
  then show ?case by (cases n) (auto split: sum.splits)
qed

lemma rows_at_slice_to:
  assumes "rows_at st xs = Inr vs"
  shows "rows_at st (slice_to xs stop) = Inr (slice_to vs stop)"
  using rows_at_take [OF assms] rows_at_length [OF assms] by (simp add: slice_to_def)

text \<open>The references the comprehension collects denote the vectors of the pure model.\<close>

lemma vocabulary_keys: "dict_contains w (vocabulary st) = dict_contains w (broadcast st)"
  by (simp add: dict_contains_def vocabulary_def comp_def)

lemma map_of_map_values:
  "map_of (map (\<lambda>entry. (fst entry, f (snd entry))) d) w = map_option f (map_of d w)"
  by (induction d) auto

lemma vocabulary_lookup:
  "map_of (vocabulary st) w = map_option (\<lambda>a. floats_of (heap st a)) (map_of (broadcast st) w)"
  unfolding vocabulary_def by (rule map_of_map_values)

lemma new_q_refs_denote:
  assumes "wf_state st"
  shows "\<exists>refs. new_q_refs (broadcast st) toks = Inr refs
           \<and> rows_at st refs = new_q (vocabulary st) toks
           \<and> (\<forall>r \<in> set refs. r < next_address st)"
proof (induction toks)
  case Nil
  show ?case by simp
next
  case (Cons w toks)
  then obtain refs where refs: "new_q_refs (broadcast st) toks = Inr refs"
    and rows: "rows_at st refs = new_q (vocabulary st) toks"
    and below: "\<forall>r \<in> set refs. r < next_address st"
    by blast
  show ?case
  proof (cases "dict_contains w (broadcast st)")
    case False
    then show ?thesis using refs rows below by (simp add: vocabulary_keys)
  next
    case True
    then obtain a where a: "map_of (broadcast st) w = Some a"
      by (cases "map_of (broadcast st) w") (auto simp: dict_contains_def map_of_eq_None_iff)
    then have mem: "(w, a) \<in> set (broadcast st)" by (rule map_of_SomeD)
    then have lt: "a < next_address st" and fl: "is_float_list (heap st a)"
      using assms by (auto simp: wf_state_def list_all_iff)
    from fl obtain v where v: "heap st a = Some (FloatList v)"
      by (auto simp: is_float_list_iff)
    have "map_of (vocabulary st) w = Some v"
      using a v by (simp add: vocabulary_lookup)
    then have get: "dict_get (vocabulary st) w = Inr v" by (simp add: dict_get_def)
    have "new_q (vocabulary st) (w # toks) =
        (case new_q (vocabulary st) toks of Inl e \<Rightarrow> Inl e | Inr vs \<Rightarrow> Inr (v # vs))"
      using True get by (simp add: vocabulary_keys)
    moreover have "new_q_refs (broadcast st) (w # toks) = Inr (a # refs)"
      using True a refs by (simp add: dict_get_def)
    moreover have "rows_at st (a # refs) =
        (case rows_at st refs of Inl e \<Rightarrow> Inl e | Inr vs \<Rightarrow> Inr (v # vs))"
      using v by (simp add: floats_at_def)
    ultimately show ?thesis using rows below lt by simp
  qed
qed

lemma alloc_simps:
  "fst (alloc ob st) = next_address st"
  "heap (snd (alloc ob st)) = (heap st)(next_address st \<mapsto> ob)"
  "next_address (snd (alloc ob st)) = Suc (next_address st)"
  "broadcast (snd (alloc ob st)) = broadcast st"
  by (simp_all add: alloc_def)

text \<open>
  The loop appends to the list at \<open>n\<close> alone: every other object allocated before the
  loop is left as it was, and the appended references denote zero vectors.
\<close>

lemma append_zeros_st_appends:
  assumes "0 \<le> E \<or> k = 0" and "heap st n = Some (RefList ys)" and "n < next_address st"
  shows "\<exists>st' zs. append_zeros_st E k n st = (Inr (), st')
           \<and> broadcast st' = broadcast st
           \<and> next_address st \<le> next_address st'
           \<and> (\<forall>a < next_address st. a \<noteq> n \<longrightarrow> heap st' a = heap st a)
           \<and> heap st' n = Some (RefList (ys @ zs))
           \<and> rows_at st' zs = Inr (replicate k (replicate (nat E) 0))
           \<and> (\<forall>z \<in> set zs. next_address st \<le> z \<and> z < next_address st')"
  using assms
proof (induction k arbitrary: st ys)
  case 0
  then show ?case by simp
next
  case (Suc k)
  define zero :: vector where "zero = replicate (nat E) 0"
  define a0 where "a0 = next_address st"
  define st1 where "st1 = snd (alloc (FloatList zero) st)"
  define st2 where "st2 = st1\<lparr>heap := (heap st1)(n \<mapsto> RefList (ys @ [a0]))\<rparr>"
  have E: "0 \<le> E" using Suc.prems(1) by simp
  have na: "n \<noteq> a0" using Suc.prems(3) by (simp add: a0_def)
  have z: "np_zeros_st E st = (Inr a0, st1)"
    using E by (simp add: np_zeros_st_def np_zeros_def alloc_def st1_def a0_def zero_def)
  have h1: "heap st1 = (heap st)(a0 \<mapsto> FloatList zero)"
    and n1: "next_address st1 = Suc a0" and b1: "broadcast st1 = broadcast st"
    by (simp_all add: st1_def a0_def alloc_simps)
  have "refs_at st1 n = Inr ys"
    using Suc.prems(2) na by (simp add: refs_at_def h1)
  then have ap: "list_append n a0 st1 = (Inr (), st2)"
    by (simp add: list_append_def st2_def)
  have h2: "heap st2 = (heap st)(a0 \<mapsto> FloatList zero, n \<mapsto> RefList (ys @ [a0]))"
    and n2: "next_address st2 = Suc a0" and b2: "broadcast st2 = broadcast st"
    by (simp_all add: st2_def h1 n1 b1)
  have "heap st2 n = Some (RefList (ys @ [a0]))" by (simp add: h2)
  moreover have "n < next_address st2" using Suc.prems(3) by (simp add: n2 a0_def)
  moreover have "0 \<le> E \<or> k = 0" using E by simp
  ultimately obtain st' zs where run: "append_zeros_st E k n st2 = (Inr (), st')"
    and b: "broadcast st' = broadcast st2"
    and nx: "next_address st2 \<le> next_address st'"
    and fr: "\<forall>a < next_address st2. a \<noteq> n \<longrightarrow> heap st' a = heap st2 a"
    and hn: "heap st' n = Some (RefList ((ys @ [a0]) @ zs))"
    and rows: "rows_at st' zs = Inr (replicate k zero)"
    and fresh: "\<forall>z \<in> set zs. next_address st2 \<le> z \<and> z < next_address st'"
    using Suc.IH [of st2 "ys @ [a0]"] unfolding zero_def by blast
  have "append_zeros_st E (Suc k) n st = (Inr (), st')"
    using z ap run by simp
  moreover have "broadcast st' = broadcast st" using b b2 by simp
  moreover have "next_address st \<le> next_address st'" using nx n2 by (simp add: a0_def)
  moreover have "\<forall>a < next_address st. a \<noteq> n \<longrightarrow> heap st' a = heap st a"
  proof (intro allI impI)
    fix a assume a: "a < next_address st" and an: "a \<noteq> n"
    then have "heap st' a = heap st2 a" using fr n2 by (simp add: a0_def)
    also have "\<dots> = heap st a" using a an by (simp add: h2 a0_def)
    finally show "heap st' a = heap st a" .
  qed
  moreover have "heap st' n = Some (RefList (ys @ (a0 # zs)))" using hn by simp
  moreover have "rows_at st' (a0 # zs) = Inr (replicate (Suc k) (replicate (nat E) 0))"
  proof -
    have "heap st' a0 = heap st2 a0" using fr na n2 by simp
    then have "floats_at st' a0 = Inr zero" using na by (simp add: floats_at_def h2)
    then show ?thesis using rows by (simp add: zero_def)
  qed
  moreover have "\<forall>z \<in> set (a0 # zs). next_address st \<le> z \<and> z < next_address st'"
    using fresh nx n2 by (auto simp: a0_def)
  ultimately show ?case by blast
qed

lemma append_zeros_st_raises:
  "E < 0 \<Longrightarrow> append_zeros_st E (Suc k) n st = (Inl ValueError, st)"
  by (simp add: np_zeros_st_def np_zeros_def)

lemma append_zeros_raises: "E < 0 \<Longrightarrow> append_zeros E (Suc k) acc = Inl ValueError"
  by (simp add: np_zeros_def)

lemma append_zeros_none: "append_zeros E 0 acc = Inr acc"
  by simp

lemma append_zeros_replicate:
  "0 \<le> E \<or> k = 0 \<Longrightarrow> append_zeros E k [] = Inr (replicate k (replicate (nat E) 0))"
  using append_zeros_ok [of E k "[]"] by (cases k) auto

lemma pad_sequences_st_refines:
  assumes q: "heap st q = Some (RefList xs)" and qlt: "q < next_address st"
    and vs: "rows_at st xs = Inr vs" and below: "\<forall>x \<in> set xs. x < next_address st"
  shows "\<exists>st'. unchanged_below (next_address st) st st' \<and>
     (case pad_sequences p vs maxlen of
        Inl e \<Rightarrow> pad_sequences_st p q maxlen st = (Inl e, st')
      | Inr rows \<Rightarrow>
          (\<exists>r refs. pad_sequences_st p q maxlen st = (Inr r, st')
             \<and> refs_at st' r = Inr refs \<and> rows_at st' refs = Inr rows))"
proof -
  define n where "n = next_address st"
  define st1 where "st1 = snd (alloc (RefList []) st)"
  define E where "E = embeddingSize p"
  define k where "k = nat (maxlen - int (length xs))"
  have len: "length vs = length xs" using vs by (rule rows_at_length)
  have h1: "heap st1 = (heap st)(n \<mapsto> RefList [])"
    and n1: "next_address st1 = Suc n" and b1: "broadcast st1 = broadcast st"
    by (simp_all add: st1_def n_def alloc_simps)
  have al: "alloc (RefList []) st = (n, st1)"
    by (simp add: st1_def n_def alloc_def)
  have qn: "q \<noteq> n" using qlt by (simp add: n_def)
  have r1: "refs_at st1 q = Inr xs" using q qn by (simp add: refs_at_def h1)
  have u1: "unchanged_below n st st1"
    by (simp add: unchanged_below_def b1 n1 h1 n_def)
  show ?thesis
  proof (cases "int (length xs) \<le> maxlen")
    case False
    define st2 where "st2 = snd (alloc (RefList (slice_to xs maxlen)) st1)"
    have h2: "heap st2 = (heap st1)(Suc n \<mapsto> RefList (slice_to xs maxlen))"
      and n2: "next_address st2 = Suc (Suc n)" and b2: "broadcast st2 = broadcast st1"
      by (simp_all add: st2_def alloc_simps n1)
    have al2: "alloc (RefList (slice_to xs maxlen)) st1 = (Suc n, st2)"
      by (simp add: st2_def alloc_def n1)
    have run: "pad_sequences_st p q maxlen st = (Inr (Suc n), st2)"
      using False by (simp add: pad_sequences_st_def al r1 al2)
    have same: "\<forall>a < n. heap st2 a = heap st a"
      by (simp add: h2 h1)
    then have "\<forall>x \<in> set xs. heap st2 x = heap st x"
      using below by (simp add: n_def)
    then have "rows_at st2 xs = Inr vs"
      using vs rows_at_unchanged [of xs st2 st] by simp
    then have "rows_at st2 (slice_to xs maxlen) = Inr (slice_to vs maxlen)"
      by (rule rows_at_slice_to)
    moreover have "refs_at st2 (Suc n) = Inr (slice_to xs maxlen)"
      by (simp add: refs_at_def h2)
    moreover have "pad_sequences p vs maxlen = Inr (slice_to vs maxlen)"
      using False len by (simp add: pad_sequences_def)
    moreover have "unchanged_below (next_address st) st st2"
      using same by (simp add: unchanged_below_def b2 b1 n2 n_def)
    ultimately show ?thesis using run by auto
  next
    case True
    show ?thesis
    proof (cases "0 \<le> E \<or> k = 0")
      case False
      then obtain k' where k': "k = Suc k'" and neg: "E < 0"
        by (cases k) auto
      have "append_zeros_st E k n st1 = (Inl ValueError, st1)"
        unfolding k' using neg by (rule append_zeros_st_raises)
      then have "pad_sequences_st p q maxlen st = (Inl ValueError, st1)"
        using True by (simp add: pad_sequences_st_def al r1 E_def k_def)
      moreover have "append_zeros E k [] = Inl ValueError"
        unfolding k' using neg by (rule append_zeros_raises)
      then have "pad_sequences p vs maxlen = Inl ValueError"
        using True len by (simp add: pad_sequences_def E_def k_def)
      ultimately show ?thesis using u1 by (auto simp: n_def)
    next
      case ok: True
      have "heap st1 n = Some (RefList [])" by (simp add: h1)
      moreover have "n < next_address st1" by (simp add: n1)
      ultimately obtain st2 zs where run: "append_zeros_st E k n st1 = (Inr (), st2)"
        and b2: "broadcast st2 = broadcast st1"
        and nx: "next_address st1 \<le> next_address st2"
        and fr: "\<forall>a < next_address st1. a \<noteq> n \<longrightarrow> heap st2 a = heap st1 a"
        and hn: "heap st2 n = Some (RefList ([] @ zs))"
        and zrows: "rows_at st2 zs = Inr (replicate k (replicate (nat E) 0))"
        and fresh: "\<forall>z \<in> set zs. next_address st1 \<le> z \<and> z < next_address st2"
        using append_zeros_st_appends [OF ok, of st1 n "[]"] by blast
      define r where "r = next_address st2"
      define st3 where "st3 = snd (alloc (RefList (xs @ zs)) st2)"
      have h3: "heap st3 = (heap st2)(r \<mapsto> RefList (xs @ zs))"
        and n3: "next_address st3 = Suc r" and b3: "broadcast st3 = broadcast st2"
        by (simp_all add: st3_def r_def alloc_simps)
      have rn: "refs_at st2 n = Inr zs" using hn by (simp add: refs_at_def)
      have al3: "alloc (RefList (xs @ zs)) st2 = (r, st3)"
        by (simp add: st3_def r_def alloc_def)
      have "pad_sequences_st p q maxlen st = (Inr r, st3)"
        using True run rn al3
        by (simp add: pad_sequences_st_def al r1 E_def k_def)
      moreover have same: "\<forall>a < n. heap st3 a = heap st a"
      proof (intro allI impI)
        fix a assume a: "a < n"
        then have "a \<noteq> r" using nx n1 by (simp add: r_def)
        then have "heap st3 a = heap st2 a" by (simp add: h3)
        also have "\<dots> = heap st1 a" using fr a n1 by simp
        also have "\<dots> = heap st a" using a by (simp add: h1)
        finally show "heap st3 a = heap st a" .
      qed
      moreover have "refs_at st3 r = Inr (xs @ zs)" by (simp add: refs_at_def h3)
      moreover have "rows_at st3 (xs @ zs) = Inr (vs @ replicate k (replicate (nat E) 0))"
      proof -
        have "\<forall>x \<in> set xs. heap st3 x = heap st x"
          using same below by (simp add: n_def)
        then have "rows_at st3 xs = Inr vs"
          using vs rows_at_unchanged [of xs st3 st] by simp
        moreover have "\<forall>z \<in> set zs. heap st3 z = heap st2 z"
          using fresh by (auto simp: h3 r_def)
        then have "rows_at st3 zs = Inr (replicate k (replicate (nat E) 0))"
          using zrows rows_at_unchanged [of zs st3 st2] by simp
        ultimately show ?thesis by (rule rows_at_append)
      qed
      moreover have "pad_sequences p vs maxlen = Inr (vs @ replicate k (replicate (nat E) 0))"
        using True len append_zeros_replicate [OF ok]
        by (simp add: pad_sequences_def E_def k_def)
      moreover have "unchanged_below (next_address st) st st3"
        using same nx n1 by (simp add: unchanged_below_def b3 b2 b1 n3 r_def n_def)
      ultimately show ?thesis by auto
    qed
  qed
qed

lemma unchanged_below_trans:
  assumes "unchanged_below b st st1" and "unchanged_below b' st1 st2" and "b \<le> b'"
  shows "unchanged_below b st st2"
  using assms by (auto simp: unchanged_below_def)

lemma unchanged_below_refl: "unchanged_below b st st"
  by (simp add: unchanged_below_def)

text \<open>
  The encoder on the heap returns what the encoder of the pure model returns for the
  vocabulary the state denotes, and leaves every object allocated before the call as it
  was.
\<close>

lemma convert_word_to_index_st_refines:
  assumes "wf_state st"
  shows "\<exists>st'. convert_word_to_index_st p s st
           = (convert_word_to_index p (vocabulary st) s, st')
         \<and> unchanged_below (next_address st) st st'"
proof -
  define n where "n = next_address st"
  obtain refs where refs: "new_q_refs (broadcast st) (re_split s) = Inr refs"
    and rows: "rows_at st refs = new_q (vocabulary st) (re_split s)"
    and below: "\<forall>r \<in> set refs. r < next_address st"
    using new_q_refs_denote [OF assms, of "re_split s"] by blast
  obtain vs where vs: "new_q (vocabulary st) (re_split s) = Inr vs"
    by (simp add: new_q_tokens)
  define st1 where "st1 = snd (alloc (RefList refs) st)"
  have h1: "heap st1 = (heap st)(n \<mapsto> RefList refs)"
    and n1: "next_address st1 = Suc n" and b1: "broadcast st1 = broadcast st"
    by (simp_all add: st1_def n_def alloc_simps)
  have al: "alloc (RefList refs) st = (n, st1)"
    by (simp add: st1_def n_def alloc_def)
  have q: "new_q_st (re_split s) st = (Inr n, st1)"
    by (simp add: new_q_st_def refs al)
  have u1: "unchanged_below n st st1"
    by (simp add: unchanged_below_def b1 n1 h1 n_def)
  have "\<forall>r \<in> set refs. heap st1 r = heap st r"
    using below by (auto simp: h1 n_def)
  then have rows1: "rows_at st1 refs = Inr vs"
    using rows vs rows_at_unchanged [of refs st1 st] by simp
  have "heap st1 n = Some (RefList refs)" by (simp add: h1)
  moreover have "n < next_address st1" by (simp add: n1)
  moreover have "\<forall>x \<in> set refs. x < next_address st1"
    using below by (auto simp: n1 n_def)
  ultimately obtain st2 where u2: "unchanged_below (next_address st1) st1 st2"
    and pad: "case pad_sequences p vs (sequenceLength p) of
        Inl e \<Rightarrow> pad_sequences_st p n (sequenceLength p) st1 = (Inl e, st2)
      | Inr rows \<Rightarrow>
          (\<exists>r refs'. pad_sequences_st p n (sequenceLength p) st1 = (Inr r, st2)
             \<and> refs_at st2 r = Inr refs' \<and> rows_at st2 refs' = Inr rows)"
    using pad_sequences_st_refines [OF _ _ rows1, of n p "sequenceLength p"] by blast
  have u: "unchanged_below (next_address st) st st2"
    using u1 u2 n1 by (auto simp: unchanged_below_def n_def)
  have pure: "convert_word_to_index p (vocabulary st) s = pad_and_shape p vs"
    by (simp add: convert_word_to_index_def vs)
  show ?thesis
  proof (cases "pad_sequences p vs (sequenceLength p)")
    case (Inl e)
    then have "pad_sequences_st p n (sequenceLength p) st1 = (Inl e, st2)"
      using pad by simp
    then have "convert_word_to_index_st p s st = (Inl e, st2)"
      by (simp add: convert_word_to_index_st_def q)
    moreover have "pad_and_shape p vs = Inl e"
      using Inl by (simp add: pad_and_shape_def)
    ultimately show ?thesis using u pure by auto
  next
    case (Inr result)
    then obtain r refs' where run: "pad_sequences_st p n (sequenceLength p) st1 = (Inr r, st2)"
      and rr: "refs_at st2 r = Inr refs'" and rv: "rows_at st2 refs' = Inr result"
      using pad by auto
    have "convert_word_to_index_st p s st =
        (if not_array_2d p then reshape_tolist (shape p) result else Inr (matrix result), st2)"
      by (simp add: convert_word_to_index_st_def q run rr rv)
    moreover have "pad_and_shape p vs =
        (if not_array_2d p then reshape_tolist (shape p) result else Inr (matrix result))"
      using Inr by (simp add: pad_and_shape_def)
    ultimately show ?thesis using u pure by auto
  qed
qed

lemma unchanged_below_wf:
  assumes "wf_state st" and "unchanged_below (next_address st) st st'"
  shows "wf_state st'" and "vocabulary st' = vocabulary st"
proof -
  have same: "\<forall>entry \<in> set (broadcast st). heap st' (snd entry) = heap st (snd entry)"
    using assms by (auto simp: wf_state_def unchanged_below_def list_all_iff)
  show "wf_state st'"
    using assms same by (auto simp: wf_state_def unchanged_below_def list_all_iff)
  show "vocabulary st' = vocabulary st"
    using assms same by (simp add: vocabulary_def unchanged_below_def)
qed

lemma after_call_wf:
  assumes "wf_state st"
  shows "wf_state (snd (convert_word_to_index_st p s st))"
    and "vocabulary (snd (convert_word_to_index_st p s st)) = vocabulary st"
proof -
  obtain st' where "convert_word_to_index_st p s st
      = (convert_word_to_index p (vocabulary st) s, st')"
    and u: "unchanged_below (next_address st) st st'"
    using convert_word_to_index_st_refines [OF assms] by blast
  then have "snd (convert_word_to_index_st p s st) = st'" by simp
  then show "wf_state (snd (convert_word_to_index_st p s st))"
    and "vocabulary (snd (convert_word_to_index_st p s st)) = vocabulary st"
    using unchanged_below_wf [OF assms u] by simp_all
qed

lemma after_calls_wf:
  "wf_state st \<Longrightarrow> wf_state (after_calls p ss st) \<and> vocabulary (after_calls p ss st) = vocabulary st"
proof (induction ss arbitrary: st)
  case Nil
  then show ?case by simp
next
  case (Cons s ss)
  then show ?case using after_call_wf [of st p s] by simp
qed

lemma convert_word_to_index_st_value:
  "wf_state st \<Longrightarrow>
     fst (convert_word_to_index_st p s st) = convert_word_to_index p (vocabulary st) s"
  using convert_word_to_index_st_refines [of st p s] by auto

text \<open>
  Applied to the rows of a column one after the other, the encoder on the heap gives the
  column of the pure encoder, which is the column \<^const>\<open>transform\<close> adds.
\<close>

lemma outputs_of_calls_pure:
  "wf_state st \<Longrightarrow>
     outputs_of_calls p ss st = map (convert_word_to_index p (vocabulary st)) ss"
proof (induction ss arbitrary: st)
  case Nil
  show ?case by simp
next
  case (Cons s ss)
  then show ?case
    using after_call_wf [of st p s] by (simp add: convert_word_to_index_st_value)
qed

text \<open>The state built from a vocabulary is well formed and denotes that vocabulary.\<close>

lemma state_of_wf: "wf_state (state_of voc)"
  by (auto simp: wf_state_def state_of_def list_all_iff dest!: set_zip_rightD)

lemma state_of_vocabulary: "vocabulary (state_of voc) = voc"
  by (rule nth_equalityI) (simp_all add: vocabulary_def state_of_def)

lemma state_of_outputs:
  "outputs_of_calls p ss (state_of voc) = map (convert_word_to_index p voc) ss"
  using outputs_of_calls_pure [OF state_of_wf, of p ss voc] by (simp add: state_of_vocabulary)

section \<open>Inputs with other whitespace\<close>

text \<open>
  Strings in which a separator other than the space stands between two words: the encoder
  splits there, so that \<^verbatim>\<open>"a\x1cb a b a"\<close> has five matched tokens and is truncated.
\<close>

lemma encode_separators:
  "convert_word_to_index matrix_params flat_voc (''a'' @ [CHR 0x1C] @ ''b a b a'')
     = Inr (matrix [[1, 2], [3, 4], [1, 2], [3, 4]])"
  "convert_word_to_index narrow_params flat_voc (''b'' @ [CHR 0x1C] @ ''a a a'')
     = Inr (matrix [[3, 4]])"
  "convert_word_to_index matrix_params flat_voc (''a'' @ [CHR 0x1C] @ ''b'')
     = Inr (matrix [[1, 2], [3, 4], [0, 0], [0, 0]])"
  "convert_word_to_index narrow_params flat_voc (''a'' @ [CHR 0x1C] @ ''b unk'')
     = Inr (matrix [[1, 2]])"
  by (simp_all add: convert_word_to_index_def re_split.simps is_space_def flat_voc_def
      matrix_params_def narrow_params_def dict_contains_def dict_get_def pad_and_shape_def
      pad_sequences_def slice_to_def np_zeros_def not_array_2d_def numeral_eq_Suc)

section \<open>Claims about the encoder\<close>

subsection \<open>C1: inputs with at most L matched tokens\<close>

text \<open>
  Claim C1 as stated: for every input string with at most \<open>L\<close> vocabulary-matched tokens
  the encoder returns a sequence of exactly \<open>L\<close> vectors, the looked-up vectors first and
  zero vectors after them. The statement leaves the configured shape out. With sequence
  length 4, embedding size 2 and the shape \<^verbatim>\<open>(8,)\<close> the input \<^verbatim>\<open>"a b"\<close> has two
  matched tokens, and the encoder returns a list of eight floats, not the four vectors.
\<close>

theorem short_input_reshaped_counterexample:
  "int (length (matched_tokens flat_voc ''a b'')) \<le> sequenceLength flat_params
   \<and> convert_word_to_index flat_params flat_voc ''a b''
       = Inr (PyList [PyFloat 1, PyFloat 2, PyFloat 3, PyFloat 4,
                      PyFloat 0, PyFloat 0, PyFloat 0, PyFloat 0])
   \<and> convert_word_to_index flat_params flat_voc ''a b''
       \<noteq> Inr (matrix [[1, 2], [3, 4], [0, 0], [0, 0]])"
  by (simp add: matched_tokens_def convert_word_to_index_def split_a_b flat_voc_def flat_params_def
      dict_contains_def dict_get_def pad_and_shape_def pad_sequences_def np_zeros_def
      not_array_2d_def reshape_tolist_def np_array_def fix_unknown_dimension_def matrix_def
      numeral_eq_Suc)

text \<open>
  Claim C1, amended: for every input string whose count of vocabulary-matched tokens is at
  most \<open>L\<close>, and a non-negative embedding size \<open>E\<close>, the sequence the encoder builds is
  the looked-up vectors in token order followed by zero vectors of length \<open>E\<close> up to the
  length \<open>L\<close>. The encoder returns this sequence as it is when the configured shape is
  two-dimensional with first dimension \<open>L\<close>, and reshaped to the configured shape
  otherwise.
\<close>

theorem short_input_is_zero_padded:
  assumes "int (length (matched_tokens voc s)) \<le> sequenceLength p"
    and "0 \<le> embeddingSize p"
  shows "convert_word_to_index p voc s =
     (let rows = looked_up voc s @
                 replicate (nat (sequenceLength p) - length (matched_tokens voc s))
                   (replicate (nat (embeddingSize p)) 0)
      in if not_array_2d p then reshape_tolist (shape p) rows else Inr (matrix rows))"
  using assms
  by (simp add: convert_unfold pad_and_shape_def pad_sequences_short length_looked_up)

text \<open>
  The example of the specification: \<^verbatim>\<open>"cat dog bird"\<close> gives the vectors of cat and dog
  and one zero vector.
\<close>

theorem short_input_is_zero_padded_witness:
  "int (length (matched_tokens example_voc ''cat dog bird'')) \<le> sequenceLength example_params
   \<and> 0 \<le> embeddingSize example_params
   \<and> convert_word_to_index example_params example_voc ''cat dog bird''
       = Inr (matrix [[1, 0, 0, 0], [0, 1, 0, 0], [0, 0, 0, 0]])"
proof -
  have n: "int (length (matched_tokens example_voc ''cat dog bird'')) \<le> sequenceLength example_params"
    by (simp add: matched_tokens_def split_cat_dog_bird example_voc_def example_params_def)
  have e: "0 \<le> embeddingSize example_params"
    by (simp add: example_params_def)
  show ?thesis
    using short_input_is_zero_padded [OF n e] n e
    by (simp add: looked_up_def matched_tokens_def split_cat_dog_bird example_voc_def
        example_params_def not_array_2d_def numeral_eq_Suc)
qed

subsection \<open>C2: inputs with more than L matched tokens\<close>

text \<open>
  Claim C2 as stated: for every input string with more than \<open>L\<close> vocabulary-matched tokens
  the encoder returns exactly the first \<open>L\<close> looked-up vectors. Again the configured shape
  is left out: with sequence length 4, embedding size 2 and the shape \<^verbatim>\<open>(8,)\<close> the input
  \<^verbatim>\<open>"a b a b a"\<close> has five matched tokens, and the encoder returns eight floats.
\<close>

theorem long_input_reshaped_counterexample:
  "sequenceLength flat_params < int (length (matched_tokens flat_voc ''a b a b a''))
   \<and> convert_word_to_index flat_params flat_voc ''a b a b a''
       = Inr (PyList [PyFloat 1, PyFloat 2, PyFloat 3, PyFloat 4,
                      PyFloat 1, PyFloat 2, PyFloat 3, PyFloat 4])
   \<and> convert_word_to_index flat_params flat_voc ''a b a b a''
       \<noteq> Inr (matrix [[1, 2], [3, 4], [1, 2], [3, 4]])"
  by (simp add: matched_tokens_def convert_word_to_index_def split_a_b_a_b_a flat_voc_def
      flat_params_def dict_contains_def dict_get_def pad_and_shape_def pad_sequences_def
      slice_to_def not_array_2d_def reshape_tolist_def np_array_def fix_unknown_dimension_def
      matrix_def numeral_eq_Suc)

text \<open>
  Claim C2, amended: for every input string whose count of vocabulary-matched tokens
  exceeds a non-negative \<open>L\<close>, the sequence the encoder builds is exactly the first \<open>L\<close>
  looked-up vectors, in token order and with no zero vector appended. The encoder returns
  this sequence as it is when the configured shape is two-dimensional with first dimension
  \<open>L\<close>, and reshaped to the configured shape otherwise.
\<close>

theorem long_input_is_truncated:
  assumes "sequenceLength p < int (length (matched_tokens voc s))"
    and "0 \<le> sequenceLength p"
  shows "convert_word_to_index p voc s =
     (let rows = take (nat (sequenceLength p)) (looked_up voc s)
      in if not_array_2d p then reshape_tolist (shape p) rows else Inr (matrix rows))"
  using assms
  by (simp add: convert_unfold pad_and_shape_def pad_sequences_long length_looked_up)

text \<open>The example of the specification: \<^verbatim>\<open>"cat dog cat dog"\<close> is cut to three vectors.\<close>

theorem long_input_is_truncated_witness:
  "sequenceLength example_params < int (length (matched_tokens example_voc ''cat dog cat dog''))
   \<and> 0 \<le> sequenceLength example_params
   \<and> convert_word_to_index example_params example_voc ''cat dog cat dog''
       = Inr (matrix [[1, 0, 0, 0], [0, 1, 0, 0], [1, 0, 0, 0]])"
proof -
  have n: "sequenceLength example_params < int (length (matched_tokens example_voc ''cat dog cat dog''))"
    by (simp add: matched_tokens_def split_cat_dog_cat_dog example_voc_def example_params_def)
  have l: "0 \<le> sequenceLength example_params"
    by (simp add: example_params_def)
  show ?thesis
    using long_input_is_truncated [OF n l] n l
    by (simp add: looked_up_def matched_tokens_def split_cat_dog_cat_dog example_voc_def
        example_params_def not_array_2d_def numeral_eq_Suc)
qed

subsection \<open>C3: when the reshape is applied\<close>

text \<open>
  Claim C3 as stated: the result is reshaped if and only if the configured shape is not
  exactly \<open>(L, E)\<close>. The test of the code compares the number of dimensions with 2 and the
  first dimension with \<open>L\<close>; the second dimension is never compared with \<open>E\<close>. With
  \<open>L = 1\<close>, \<open>E = 2\<close> and the shape \<^verbatim>\<open>(1, 3)\<close> the shape differs from \<open>(L, E)\<close>, yet the
  encoder returns the 1 by 2 matrix unchanged, where a reshape to \<^verbatim>\<open>(1, 3)\<close> raises.
\<close>

theorem reshape_iff_shape_differs_counterexample:
  "shape narrow_params \<noteq> [sequenceLength narrow_params, embeddingSize narrow_params]
   \<and> convert_word_to_index narrow_params flat_voc ''a'' = Inr (matrix [[1, 2]])
   \<and> reshape_tolist (shape narrow_params) [[1, 2]] = Inl ValueError"
  by (simp add: convert_word_to_index_def split_a flat_voc_def narrow_params_def
      dict_contains_def dict_get_def pad_and_shape_def pad_sequences_def
      not_array_2d_def reshape_tolist_def np_array_def fix_unknown_dimension_def)

text \<open>
  Claim C3, amended: the encoder applies the reshape to the padded sequence if and only if
  the configured shape does not have exactly two dimensions or its first dimension is not
  \<open>L\<close>. For every shape \<open>(L, x)\<close>, whatever \<open>x\<close> is, the padded sequence is returned as a
  list of lists of floats; for every other shape it is reshaped to that shape.
\<close>

theorem reshape_iff_not_two_dimensional_from_L:
  "convert_word_to_index p voc s =
     (case pad_sequences p (looked_up voc s) (sequenceLength p) of
        Inl e \<Rightarrow> Inl e
      | Inr result \<Rightarrow>
          if \<exists>x. shape p = [sequenceLength p, x] then Inr (matrix result)
          else reshape_tolist (shape p) result)"
  by (auto simp: convert_unfold pad_and_shape_def not_array_2d_iff split: sum.splits)

text \<open>Both branches: the shape \<^verbatim>\<open>(1, 3)\<close> with \<open>L = 1\<close>, and the shape \<^verbatim>\<open>(8,)\<close>.\<close>

theorem reshape_iff_not_two_dimensional_from_L_witness:
  "convert_word_to_index narrow_params flat_voc ''a'' = Inr (matrix [[1, 2]])
   \<and> convert_word_to_index flat_params flat_voc ''a b''
       = reshape_tolist [8] [[1, 2], [3, 4], [0, 0], [0, 0]]"
proof -
  have a: "pad_sequences narrow_params (looked_up flat_voc ''a'') (sequenceLength narrow_params)
             = Inr [[1, 2]]"
    by (simp add: pad_sequences_def looked_up_def matched_tokens_def split_a flat_voc_def
        narrow_params_def)
  have b: "pad_sequences flat_params (looked_up flat_voc ''a b'') (sequenceLength flat_params)
             = Inr [[1, 2], [3, 4], [0, 0], [0, 0]]"
    by (simp add: pad_sequences_def looked_up_def matched_tokens_def split_a_b flat_voc_def
        flat_params_def np_zeros_def numeral_eq_Suc)
  show ?thesis
    using reshape_iff_not_two_dimensional_from_L [of narrow_params flat_voc "''a''"]
      reshape_iff_not_two_dimensional_from_L [of flat_params flat_voc "''a b''"]
    by (simp add: a b) (simp add: narrow_params_def flat_params_def)
qed

subsection \<open>C6: tokens that are not in the vocabulary\<close>

text \<open>
  Claim C6: a whitespace-delimited token of the input that is not a key of the vocabulary
  is left out of the vector sequence, and nothing stands in for it: the sequence is the
  vectors of the tokens before it followed directly by the vectors of the tokens after
  it, and the encoder pads and shapes exactly that sequence.
\<close>

theorem absent_token_contributes_nothing:
  assumes "re_split s = pre @ w # post" and "\<not> dict_contains w voc"
  shows "\<exists>a b. new_q voc pre = Inr a \<and> new_q voc post = Inr b
           \<and> new_q voc (re_split s) = Inr (a @ b)
           \<and> convert_word_to_index p voc s = pad_and_shape p (a @ b)"
proof -
  define a where "a = map (\<lambda>w. the (map_of voc w)) (filter (\<lambda>w. w \<in> fst ` set voc) pre)"
  define b where "b = map (\<lambda>w. the (map_of voc w)) (filter (\<lambda>w. w \<in> fst ` set voc) post)"
  have w: "w \<notin> fst ` set voc"
    using assms(2) by (simp add: dict_contains_def)
  have pre: "new_q voc pre = Inr a" and post: "new_q voc post = Inr b"
    by (simp_all add: new_q_tokens a_def b_def)
  have q: "new_q voc (re_split s) = Inr (a @ b)"
    using w by (simp add: assms(1) new_q_tokens a_def b_def)
  then have "convert_word_to_index p voc s = pad_and_shape p (a @ b)"
    by (simp add: convert_word_to_index_def)
  with pre post q show ?thesis by blast
qed

text \<open>
  In \<^verbatim>\<open>"cat bird dog"\<close> the token bird is unknown: the vectors of cat and dog are
  adjacent, although the vocabulary has the key \<^verbatim>\<open>"unk"\<close>.
\<close>

theorem absent_token_contributes_nothing_witness:
  "re_split ''cat bird dog'' = [''cat''] @ ''bird'' # [''dog'']
   \<and> \<not> dict_contains ''bird'' example_voc
   \<and> new_q example_voc (re_split ''cat bird dog'') = Inr ([[1, 0, 0, 0]] @ [[0, 1, 0, 0]])
   \<and> convert_word_to_index example_params example_voc ''cat bird dog''
       = pad_and_shape example_params ([[1, 0, 0, 0]] @ [[0, 1, 0, 0]])"
proof -
  have s: "re_split ''cat bird dog'' = [''cat''] @ ''bird'' # [''dog'']"
    by (simp add: split_cat_bird_dog)
  have w: "\<not> dict_contains ''bird'' example_voc"
    by (simp add: dict_contains_def example_voc_def)
  have a: "new_q example_voc [''cat''] = Inr [[1, 0, 0, 0]]"
    and b: "new_q example_voc [''dog''] = Inr [[0, 1, 0, 0]]"
    by (simp_all add: dict_contains_def dict_get_def example_voc_def)
  show ?thesis
    using absent_token_contributes_nothing [OF s w, of example_params] s w a b
    by auto
qed

subsection \<open>C7: repeated applications\<close>

text \<open>
  Claim C7: the encoder is deterministic. With the vocabulary, the sequence length, the
  embedding size and the shape fixed, an application of the encoder to a string, then any
  number of applications to other strings, then a second application to the same string:
  the second returns what the first returned. The applications run one after the other on
  the same heap; the lists an application builds share the vectors of the vocabulary, and
  its only update in place is the \<^verbatim>\<open>append\<close> to the list it has just created.
\<close>

theorem repeated_application_same_output:
  assumes "wf_state st"
  shows "fst (convert_word_to_index_st p s
               (after_calls p between (snd (convert_word_to_index_st p s st))))
         = fst (convert_word_to_index_st p s st)"
proof -
  define st1 where "st1 = snd (convert_word_to_index_st p s st)"
  have w1: "wf_state st1" and v1: "vocabulary st1 = vocabulary st"
    unfolding st1_def using assms by (rule after_call_wf)+
  have "wf_state (after_calls p between st1)"
    and "vocabulary (after_calls p between st1) = vocabulary st1"
    using after_calls_wf [OF w1] by simp_all
  then have "fst (convert_word_to_index_st p s (after_calls p between st1))
      = convert_word_to_index p (vocabulary st) s"
    using v1 by (simp add: convert_word_to_index_st_value)
  then show ?thesis
    using assms by (simp add: st1_def convert_word_to_index_st_value)
qed

text \<open>The flat example: the same eight floats before and after two other rows.\<close>

theorem repeated_application_same_output_witness:
  "wf_state example_state
   \<and> fst (convert_word_to_index_st flat_params ''a b'' example_state)
       = Inr (PyList [PyFloat 1, PyFloat 2, PyFloat 3, PyFloat 4,
                      PyFloat 0, PyFloat 0, PyFloat 0, PyFloat 0])
   \<and> fst (convert_word_to_index_st flat_params ''a b''
            (after_calls flat_params [''a'', ''cat unk'']
               (snd (convert_word_to_index_st flat_params ''a b'' example_state))))
       = Inr (PyList [PyFloat 1, PyFloat 2, PyFloat 3, PyFloat 4,
                      PyFloat 0, PyFloat 0, PyFloat 0, PyFloat 0])"
proof -
  have w: "wf_state example_state"
    by (simp add: wf_state_def example_state_def)
  have first: "fst (convert_word_to_index_st flat_params ''a b'' example_state)
       = Inr (PyList [PyFloat 1, PyFloat 2, PyFloat 3, PyFloat 4,
                      PyFloat 0, PyFloat 0, PyFloat 0, PyFloat 0])"
    by (simp add: convert_word_to_index_st_def new_q_st_def split_a_b example_state_def
        dict_contains_def dict_get_def alloc_def pad_sequences_st_def refs_at_def flat_params_def
        np_zeros_st_def np_zeros_def list_append_def floats_at_def not_array_2d_def
        reshape_tolist_def np_array_def fix_unknown_dimension_def numeral_eq_Suc)
  show ?thesis
    using repeated_application_same_output
      [OF w, of flat_params "''a b''" "[''a'', ''cat unk'']"] w first
    by simp
qed

subsection \<open>C8: a flat shape lists the matrix row by row\<close>

text \<open>
  Claim C8: with a flat target shape the elements of the \<open>L\<close> by \<open>E\<close> matrix appear in the
  output in row-major order. For non-negative \<open>L\<close> and \<open>E\<close>, a vocabulary whose vectors
  have length \<open>E\<close> and a one-dimensional shape, \<open>(L * E,)\<close> or with the dimension left
  to be inferred, the padded sequence has \<open>L\<close> rows of length \<open>E\<close> and the encoder
  returns the concatenation of its rows; with \<open>L = 4\<close>, \<open>E = 2\<close> and the shape
  \<^verbatim>\<open>(8,)\<close> these are the eight scalars of the padded matrix.
\<close>

theorem flat_reshape_is_row_major:
  assumes "shape p = [d]"
    and "d = sequenceLength p * embeddingSize p \<or> d < 0"
    and "0 \<le> sequenceLength p" and "0 \<le> embeddingSize p"
    and "\<forall>v \<in> snd ` set voc. length v = nat (embeddingSize p)"
  shows "\<exists>rows. pad_sequences p (looked_up voc s) (sequenceLength p) = Inr rows
           \<and> length rows = nat (sequenceLength p)
           \<and> (\<forall>r \<in> set rows. length r = nat (embeddingSize p))
           \<and> convert_word_to_index p voc s = Inr (PyList (map PyFloat (concat rows)))"
proof -
  define rows where "rows = take (nat (sequenceLength p))
      (looked_up voc s @ replicate (nat (sequenceLength p)) (replicate (nat (embeddingSize p)) 0))"
  have pad: "pad_sequences p (looked_up voc s) (sequenceLength p) = Inr rows"
    unfolding rows_def using assms(3,4) by (rule pad_sequences_rows)
  have len: "length rows = nat (sequenceLength p)"
    by (simp add: rows_def)
  have "\<forall>r \<in> set (looked_up voc s). length r = nat (embeddingSize p)"
    using assms(5) by (rule looked_up_lengths)
  then have wide: "\<forall>r \<in> set rows. length r = nat (embeddingSize p)"
    unfolding rows_def by (auto dest!: in_set_takeD)
  have "sequenceLength p * embeddingSize p = int (length rows * nat (embeddingSize p))"
    using len assms(3,4) by simp
  then have "d = int (length rows * nat (embeddingSize p)) \<or> d < 0"
    using assms(2) by auto
  with wide have "reshape_tolist [d] rows = Inr (PyList (map PyFloat (concat rows)))"
    by (rule reshape_tolist_flat)
  moreover have "not_array_2d p"
    using assms(1) by (simp add: not_array_2d_def)
  ultimately have "convert_word_to_index p voc s = Inr (PyList (map PyFloat (concat rows)))"
    using pad assms(1) by (simp add: convert_unfold pad_and_shape_def)
  with pad len wide show ?thesis by blast
qed

text \<open>The example of the specification: \<open>L = 4\<close>, \<open>E = 2\<close> and the shape \<^verbatim>\<open>(8,)\<close>.\<close>

theorem flat_reshape_is_row_major_witness:
  "shape flat_params = [8]
   \<and> 8 = sequenceLength flat_params * embeddingSize flat_params
   \<and> 0 \<le> sequenceLength flat_params \<and> 0 \<le> embeddingSize flat_params
   \<and> list_all (\<lambda>v. length v = nat (embeddingSize flat_params)) (map snd flat_voc)
   \<and> pad_sequences flat_params (looked_up flat_voc ''a b'') (sequenceLength flat_params)
        = Inr [[1, 2], [3, 4], [0, 0], [0, 0]]
   \<and> convert_word_to_index flat_params flat_voc ''a b''
        = Inr (PyList [PyFloat 1, PyFloat 2, PyFloat 3, PyFloat 4,
                       PyFloat 0, PyFloat 0, PyFloat 0, PyFloat 0])"
proof -
  have s: "shape flat_params = [8]"
    by (simp add: flat_params_def)
  have d: "8 = sequenceLength flat_params * embeddingSize flat_params
      \<or> (8::int) < 0"
    by (simp add: flat_params_def)
  have l: "0 \<le> sequenceLength flat_params" and e: "0 \<le> embeddingSize flat_params"
    by (simp_all add: flat_params_def)
  have v: "\<forall>v \<in> snd ` set flat_voc. length v = nat (embeddingSize flat_params)"
    by (simp add: flat_voc_def flat_params_def)
  have pad: "pad_sequences flat_params (looked_up flat_voc ''a b'') (sequenceLength flat_params)
        = Inr [[1, 2], [3, 4], [0, 0], [0, 0]]"
    by (simp add: pad_sequences_def looked_up_def matched_tokens_def split_a_b flat_voc_def
        flat_params_def np_zeros_def numeral_eq_Suc)
  show ?thesis
    using flat_reshape_is_row_major [OF s d l e v, of "''a b''"] s d l e v pad
    by (auto simp: list_all_iff)
qed

subsection \<open>C10: the token unk in the input\<close>

text \<open>
  Claim C10 as stated: for every input string with the token \<^verbatim>\<open>"unk"\<close> the zero vector
  stands at the token's position in the encoded sequence. Truncation applies to this token
  as to any other: with sequence length 1 the input \<^verbatim>\<open>"cat unk"\<close> is encoded as the
  vector of cat alone.
\<close>

theorem unk_token_truncated_counterexample:
  "word_embedding unit_params [(''cat'', [5])] = Inr [(''cat'', [5]), (''unk'', [0])]
   \<and> re_split ''cat unk'' = [''cat'', ''unk'']
   \<and> convert_word_to_index unit_params [(''cat'', [5]), (''unk'', [0])] ''cat unk''
       = Inr (matrix [[5]])
   \<and> replicate (nat (embeddingSize unit_params)) 0 \<notin> set [[5::real]]"
  by (simp add: word_embedding_def np_zeros_def dict_of_def unit_params_def split_cat_unk
      convert_word_to_index_def dict_contains_def dict_get_def pad_and_shape_def
      pad_sequences_def slice_to_def not_array_2d_def)

text \<open>
  Claim C10, amended: with the vocabulary that \<^verbatim>\<open>_transform\<close> builds, a token
  \<^verbatim>\<open>"unk"\<close> of the input is not dropped by the vocabulary test: in the sequence of
  looked-up vectors the all-zero vector of length \<open>E\<close> stands at the token's position,
  between the vectors of the tokens before it and those of the tokens after it. When that
  position is below \<open>L\<close> and no reshape is applied, the encoder's result holds the zero
  vector at that position. When that position is \<open>L\<close> or beyond, the token is cut off by
  the truncation like any other: the result is built from the first \<open>L\<close> vectors of the
  tokens before it alone.
\<close>

theorem unk_token_is_looked_up:
  assumes "word_embedding p vectors = Inr voc" and "re_split s = pre @ ''unk'' # post"
  shows "\<exists>a b. new_q voc pre = Inr a \<and> new_q voc post = Inr b
           \<and> new_q voc (re_split s) = Inr (a @ replicate (nat (embeddingSize p)) 0 # b)
           \<and> (int (length a) < sequenceLength p \<longrightarrow> \<not> not_array_2d p \<longrightarrow>
                (\<exists>rows. convert_word_to_index p voc s = Inr (matrix rows)
                   \<and> length a < length rows
                   \<and> rows ! length a = replicate (nat (embeddingSize p)) 0))
           \<and> (0 \<le> sequenceLength p \<longrightarrow> sequenceLength p \<le> int (length a) \<longrightarrow>
                convert_word_to_index p voc s =
                  (if not_array_2d p
                   then reshape_tolist (shape p) (take (nat (sequenceLength p)) a)
                   else Inr (matrix (take (nat (sequenceLength p)) a))))"
proof -
  define z :: vector where "z = replicate (nat (embeddingSize p)) 0"
  define a where "a = map (\<lambda>w. the (map_of voc w)) (filter (\<lambda>w. w \<in> fst ` set voc) pre)"
  define b where "b = map (\<lambda>w. the (map_of voc w)) (filter (\<lambda>w. w \<in> fst ` set voc) post)"
  have e: "0 \<le> embeddingSize p"
    and voc: "voc = AList.update ''unk'' z (dict_of vectors)"
    unfolding z_def using assms(1) by (rule word_embedding_InrD)+
  have k: "''unk'' \<in> fst ` set voc" and g: "map_of voc ''unk'' = Some z"
    by (simp_all add: voc dom_update update_conv')
  have pre: "new_q voc pre = Inr a" and post: "new_q voc post = Inr b"
    by (simp_all add: new_q_tokens a_def b_def)
  have q: "new_q voc (re_split s) = Inr (a @ z # b)"
    using k g by (simp add: assms(2) new_q_tokens a_def b_def)
  have enc: "\<exists>rows. convert_word_to_index p voc s = Inr (matrix rows)
      \<and> length a < length rows \<and> rows ! length a = z"
    if pos: "int (length a) < sequenceLength p" and flat: "\<not> not_array_2d p"
  proof -
    define rows where "rows = take (nat (sequenceLength p))
       ((a @ z # b) @ replicate (nat (sequenceLength p)) z)"
    have l: "0 \<le> sequenceLength p" using pos by simp
    have "pad_sequences p (a @ z # b) (sequenceLength p) = Inr rows"
      unfolding rows_def z_def using l e by (rule pad_sequences_rows)
    then have c: "convert_word_to_index p voc s = Inr (matrix rows)"
      using q flat by (simp add: convert_word_to_index_def pad_and_shape_def)
    have n: "length a < nat (sequenceLength p)" using pos by simp
    then have len: "length a < length rows" by (simp add: rows_def)
    have "rows ! length a = ((a @ z # b) @ replicate (nat (sequenceLength p)) z) ! length a"
      unfolding rows_def using n by (rule nth_take)
    also have "\<dots> = z" by (simp add: nth_append)
    finally have "rows ! length a = z" .
    with c len show ?thesis by blast
  qed
  have cut: "convert_word_to_index p voc s =
      (if not_array_2d p then reshape_tolist (shape p) (take (nat (sequenceLength p)) a)
       else Inr (matrix (take (nat (sequenceLength p)) a)))"
    if l: "0 \<le> sequenceLength p" and pos: "sequenceLength p \<le> int (length a)"
  proof -
    have "sequenceLength p < int (length (a @ z # b))" using pos by simp
    then have "pad_sequences p (a @ z # b) (sequenceLength p)
        = Inr (take (nat (sequenceLength p)) (a @ z # b))"
      using l by (rule pad_sequences_long)
    moreover have "take (nat (sequenceLength p)) (a @ z # b) = take (nat (sequenceLength p)) a"
      using pos l by simp
    ultimately show ?thesis
      using q by (simp add: convert_word_to_index_def pad_and_shape_def)
  qed
  show ?thesis
    using pre post q enc cut unfolding z_def by blast
qed

text \<open>
  With the parameters of the specification's example, \<^verbatim>\<open>"cat unk"\<close> is encoded as the
  vector of cat, the zero vector of the token, and one zero vector of padding. With
  sequence length 1 the same input is encoded as the vector of cat alone.
\<close>

theorem unk_token_is_looked_up_witness:
  "word_embedding example_params [(''cat'', [1, 0, 0, 0])]
       = Inr [(''cat'', [1, 0, 0, 0]), (''unk'', [0, 0, 0, 0])]
   \<and> re_split ''cat unk'' = [''cat''] @ ''unk'' # []
   \<and> new_q [(''cat'', [1, 0, 0, 0]), (''unk'', [0, 0, 0, 0])] (re_split ''cat unk'')
       = Inr ([[1, 0, 0, 0]] @ replicate (nat (embeddingSize example_params)) 0 # [])
   \<and> int (length [[1::real, 0, 0, 0]]) < sequenceLength example_params
   \<and> \<not> not_array_2d example_params
   \<and> (\<exists>rows. convert_word_to_index example_params
                [(''cat'', [1, 0, 0, 0]), (''unk'', [0, 0, 0, 0])] ''cat unk'' = Inr (matrix rows)
          \<and> length [[1::real, 0, 0, 0]] < length rows
          \<and> rows ! length [[1::real, 0, 0, 0]]
               = replicate (nat (embeddingSize example_params)) 0)
   \<and> word_embedding unit_params [(''cat'', [5])] = Inr [(''cat'', [5]), (''unk'', [0])]
   \<and> 0 \<le> sequenceLength unit_params
   \<and> sequenceLength unit_params \<le> int (length [[5::real]])
   \<and> convert_word_to_index unit_params [(''cat'', [5]), (''unk'', [0])] ''cat unk''
       = Inr (matrix (take (nat (sequenceLength unit_params)) [[5]]))"
proof -
  have w: "word_embedding example_params [(''cat'', [1, 0, 0, 0])]
       = Inr [(''cat'', [1, 0, 0, 0]), (''unk'', [0, 0, 0, 0])]"
    by (simp add: word_embedding_def np_zeros_def dict_of_def example_params_def numeral_eq_Suc)
  have s: "re_split ''cat unk'' = [''cat''] @ ''unk'' # []"
    by (simp add: split_cat_unk)
  have a: "new_q [(''cat'', [1, 0, 0, 0]), (''unk'', [0, 0, 0, 0])] [''cat''] = Inr [[1, 0, 0, 0]]"
    by (simp add: dict_contains_def dict_get_def)
  have l: "int (length [[1::real, 0, 0, 0]]) < sequenceLength example_params"
    and h: "\<not> not_array_2d example_params"
    by (simp_all add: example_params_def not_array_2d_def)
  have w1: "word_embedding unit_params [(''cat'', [5])] = Inr [(''cat'', [5]), (''unk'', [0])]"
    by (simp add: word_embedding_def np_zeros_def dict_of_def unit_params_def)
  have a1: "new_q [(''cat'', [5]), (''unk'', [0])] [''cat''] = Inr [[5]]"
    by (simp add: dict_contains_def dict_get_def)
  have l1: "0 \<le> sequenceLength unit_params"
    and p1: "sequenceLength unit_params \<le> int (length [[5::real]])"
    and h1: "\<not> not_array_2d unit_params"
    by (simp_all add: unit_params_def not_array_2d_def)
  have first: "\<exists>rows. convert_word_to_index example_params
                [(''cat'', [1, 0, 0, 0]), (''unk'', [0, 0, 0, 0])] ''cat unk'' = Inr (matrix rows)
          \<and> length [[1::real, 0, 0, 0]] < length rows
          \<and> rows ! length [[1::real, 0, 0, 0]]
               = replicate (nat (embeddingSize example_params)) 0"
    using unk_token_is_looked_up [OF w s] a l h by auto
  have second: "convert_word_to_index unit_params [(''cat'', [5]), (''unk'', [0])] ''cat unk''
       = Inr (matrix (take (nat (sequenceLength unit_params)) [[5]]))"
    using unk_token_is_looked_up [OF w1 s] a1 l1 p1 h1 by auto
  have q: "new_q [(''cat'', [1, 0, 0, 0]), (''unk'', [0, 0, 0, 0])] (re_split ''cat unk'')
       = Inr ([[1, 0, 0, 0]] @ replicate (nat (embeddingSize example_params)) 0 # [])"
    using unk_token_is_looked_up [OF w s] a by auto
  show ?thesis
    using w s q l h first w1 l1 p1 second by simp
qed

section \<open>Claims about the vocabulary and the returned dataframe\<close>

subsection \<open>C4: the entry unk\<close>

text \<open>
  Claim C4: after the vocabulary is built, whatever the trained vectors are, it has the
  key \<^verbatim>\<open>"unk"\<close>, mapped to the all-zero vector whose length is the embedding size. The
  construction fails only for a negative embedding size.
\<close>

theorem unk_entry_is_zero_vector:
  "case word_embedding p vectors of
     Inl e \<Rightarrow> embeddingSize p < 0
   | Inr voc \<Rightarrow> dict_contains ''unk'' voc
       \<and> dict_get voc ''unk'' = Inr (replicate (nat (embeddingSize p)) 0)"
proof (cases "embeddingSize p < 0")
  case True
  then show ?thesis by (simp add: word_embedding_fails)
next
  case False
  then have "0 \<le> embeddingSize p" by simp
  then show ?thesis
    by (simp add: word_embedding_ok dict_contains_def dict_get_def update_conv' dom_update)
qed

text \<open>A corpus that has the word unk itself: its trained vector is replaced by zeros.\<close>

theorem unk_entry_is_zero_vector_witness:
  "word_embedding example_params [(''unk'', [1, 2, 3, 4]), (''cat'', [1, 0, 0, 0])]
     = Inr [(''unk'', [0, 0, 0, 0]), (''cat'', [1, 0, 0, 0])]
   \<and> dict_contains ''unk'' [(''unk'', [0, 0, 0, 0]), (''cat'', [1::real, 0, 0, 0])]
   \<and> dict_get [(''unk'', [0, 0, 0, 0]), (''cat'', [1, 0, 0, 0])] ''unk''
       = Inr (replicate (nat (embeddingSize example_params)) (0::real))"
proof -
  have w: "word_embedding example_params [(''unk'', [1, 2, 3, 4]), (''cat'', [1, 0, 0, 0])]
     = Inr [(''unk'', [0, 0, 0, 0]), (''cat'', [1, 0, 0, 0])]"
    by (simp add: word_embedding_def np_zeros_def dict_of_def example_params_def numeral_eq_Suc)
  show ?thesis
    using unk_entry_is_zero_vector
      [of example_params "[(''unk'', [1, 2, 3, 4]), (''cat'', [1, 0, 0, 0])]"] w
    by simp
qed

subsection \<open>C5: the column vocab_size\<close>

text \<open>
  Claim C5 as stated: the vocabulary size column holds the count of distinct trained words
  plus one. When the trained words include unk itself, storing the zero vector replaces
  an entry and adds none: a corpus whose only word is unk gives the vocabulary size 1,
  not 2.
\<close>

theorem vocab_size_plus_one_counterexample:
  "transform False unit_params (Inr [(''unk'', [7])]) example_dataset
     = Inr [(''id'', [IntCell 7]), (''text'', [StringCell ''unk'']),
            (''features'', [UdfCell (Inr (PyList [PyList [PyFloat 0]]))]),
            (''vocab_size'', [IntCell 1]), (''embedding_size'', [IntCell 1])]
   \<and> int (card (fst ` set [(''unk'', [7::real])])) + 1 = 2"
proof -
  have "resolve_column False example_dataset (inputCol unit_params) = Inr [StringCell ''unk'']"
    using resolve_text [of False] by (simp add: unit_params_def)
  then show ?thesis
    by (simp add: transform_def word_embedding_def np_zeros_def dict_of_def unit_params_def
        example_dataset_def withColumn_def resolver_def lower_code_def VOCAB_SIZE_def
        EMBEDDING_SIZE_def cwti_udf_def convert_word_to_index_def split_unk dict_contains_def
        dict_get_def pad_and_shape_def pad_sequences_def not_array_2d_def matrix_def)
qed

text \<open>
  Claim C5, amended: whenever \<^verbatim>\<open>_transform\<close> returns (the input column is resolved, the
  training has returned and the embedding size is not negative), the vocabulary size
  column holds on every row the same number, the count of keys of the vocabulary: the
  count of distinct trained words plus one when unk is not a trained word, and exactly
  that count when it is.
\<close>

theorem vocab_size_counts_vocabulary_keys:
  assumes "resolve_column cs ds (inputCol p) = Inr texts" and "0 \<le> embeddingSize p"
  shows "\<exists>out. transform cs p (Inr vectors) ds = Inr out
           \<and> map_of out VOCAB_SIZE =
               Some (replicate (length texts)
                 (IntCell (int (card (fst ` set vectors))
                            + (if ''unk'' \<in> fst ` set vectors then 0 else 1))))"
  using assms
  by (simp add: transform_ok map_of_withColumn_other [OF resolver_size_columns]
      map_of_withColumn_same vocab_length)

theorem vocab_size_counts_vocabulary_keys_witness:
  "resolve_column False example_dataset (inputCol unit_params) = Inr [StringCell ''unk'']
   \<and> 0 \<le> embeddingSize unit_params
   \<and> (\<exists>out. transform False unit_params (Inr [(''cat'', [5]), (''dog'', [6])]) example_dataset
              = Inr out
          \<and> map_of out VOCAB_SIZE = Some [IntCell 3])"
proof -
  have t: "resolve_column False example_dataset (inputCol unit_params) = Inr [StringCell ''unk'']"
    using resolve_text [of False] by (simp add: unit_params_def)
  have e: "0 \<le> embeddingSize unit_params"
    by (simp add: unit_params_def)
  have c: "card (fst ` set [(''cat'', [5::real]), (''dog'', [6])]) = 2"
    by simp
  show ?thesis
    using vocab_size_counts_vocabulary_keys [OF t e, of "[(''cat'', [5]), (''dog'', [6])]"] t e
    by (simp add: c)
qed

subsection \<open>C9: the columns of the returned dataframe\<close>

text \<open>
  Claim C9 as stated: when the three names are not columns of the input, the result is the
  input with exactly three new columns. The claim allows an output column named
  \<^verbatim>\<open>vocab_size\<close>; the vocabulary size column then replaces the encoded column and the
  result has two new columns.
\<close>

theorem transform_output_name_clash_counterexample:
  "\<not> list_ex (\<lambda>c. resolver False c (outputCol clash_params)) (map fst example_dataset)
   \<and> \<not> list_ex (\<lambda>c. resolver False c VOCAB_SIZE) (map fst example_dataset)
   \<and> \<not> list_ex (\<lambda>c. resolver False c EMBEDDING_SIZE) (map fst example_dataset)
   \<and> transform False clash_params (Inr [(''cat'', [5])]) example_dataset
       = Inr (example_dataset @
              [(''vocab_size'', [IntCell 2]), (''embedding_size'', [IntCell 1])])"
proof -
  have "resolve_column False example_dataset (inputCol clash_params) = Inr [StringCell ''unk'']"
    using resolve_text [of False] by (simp add: clash_params_def)
  then show ?thesis
    by (simp add: transform_def word_embedding_def np_zeros_def dict_of_def clash_params_def
        example_dataset_def withColumn_def resolver_def lower_code_def VOCAB_SIZE_def
        EMBEDDING_SIZE_def)
qed

text \<open>
  The same happens when the output column name differs from \<^verbatim>\<open>vocab_size\<close> only in the
  case of its letters, in a session that ignores case.
\<close>

lemma transform_capital_name_clash:
  "transform False capital_params (Inr [(''cat'', [5])]) example_dataset
     = Inr (example_dataset @
            [(''vocab_size'', [IntCell 2]), (''embedding_size'', [IntCell 1])])"
proof -
  have "resolve_column False example_dataset (inputCol capital_params) = Inr [StringCell ''unk'']"
    using resolve_capital_text(1) by (simp add: capital_params_def)
  then show ?thesis
    by (simp add: transform_def word_embedding_def np_zeros_def dict_of_def capital_params_def
        example_dataset_def withColumn_def resolver_def lower_code_def VOCAB_SIZE_def
        EMBEDDING_SIZE_def)
qed

text \<open>
  Claim C9, amended: whenever \<^verbatim>\<open>_transform\<close> returns (the input column is resolved, the
  training has returned and the embedding size is not negative), no column of the input
  resolves to the output column name, to \<^verbatim>\<open>vocab_size\<close> or to \<^verbatim>\<open>embedding_size\<close>, and
  the output column name resolves to neither \<^verbatim>\<open>vocab_size\<close> nor \<^verbatim>\<open>embedding_size\<close>,
  the result is the input dataset, every column in place and unchanged, followed by exactly
  three new columns: the encoded sequence under the output column name, the vocabulary
  size and the embedding size. Names resolve as the session compares them, without regard
  to case by default.
\<close>

theorem transform_adds_three_columns:
  assumes "resolve_column cs ds (inputCol p) = Inr texts" and "0 \<le> embeddingSize p"
    and "\<forall>c \<in> fst ` set ds. \<not> resolver cs c (outputCol p)"
    and "\<forall>c \<in> fst ` set ds. \<not> resolver cs c VOCAB_SIZE"
    and "\<forall>c \<in> fst ` set ds. \<not> resolver cs c EMBEDDING_SIZE"
    and "\<not> resolver cs (outputCol p) VOCAB_SIZE"
    and "\<not> resolver cs (outputCol p) EMBEDDING_SIZE"
  shows "\<exists>voc. word_embedding p vectors = Inr voc
           \<and> transform cs p (Inr vectors) ds =
               Inr (ds @ [(outputCol p, map (cwti_udf p voc) texts),
                          (VOCAB_SIZE, replicate (length texts) (IntCell (int (length voc)))),
                          (EMBEDDING_SIZE,
                             replicate (length texts) (IntCell (embeddingSize p)))])"
proof -
  define voc where
    "voc = AList.update ''unk'' (replicate (nat (embeddingSize p)) 0) (dict_of vectors)"
  define c1 where "c1 = map (cwti_udf p voc) texts"
  define c2 where "c2 = replicate (length texts) (IntCell (int (length voc)))"
  define c3 where "c3 = replicate (length texts) (IntCell (embeddingSize p))"
  have w: "word_embedding p vectors = Inr voc"
    unfolding voc_def using assms(2) by (rule word_embedding_ok)
  have d1: "withColumn cs (outputCol p) c1 ds = ds @ [(outputCol p, c1)]"
    using assms(3) by (rule withColumn_fresh)
  have "\<forall>c \<in> fst ` set (ds @ [(outputCol p, c1)]). \<not> resolver cs c VOCAB_SIZE"
    using assms(4,6) by auto
  then have d2: "withColumn cs VOCAB_SIZE c2 (ds @ [(outputCol p, c1)])
      = (ds @ [(outputCol p, c1)]) @ [(VOCAB_SIZE, c2)]"
    by (rule withColumn_fresh)
  have "\<forall>c \<in> fst ` set ((ds @ [(outputCol p, c1)]) @ [(VOCAB_SIZE, c2)]).
      \<not> resolver cs c EMBEDDING_SIZE"
    using assms(5,7) resolver_size_columns [of cs] by auto
  then have d3: "withColumn cs EMBEDDING_SIZE c3
        ((ds @ [(outputCol p, c1)]) @ [(VOCAB_SIZE, c2)])
      = ((ds @ [(outputCol p, c1)]) @ [(VOCAB_SIZE, c2)]) @ [(EMBEDDING_SIZE, c3)]"
    by (rule withColumn_fresh)
  have "transform cs p (Inr vectors) ds =
      Inr (withColumn cs EMBEDDING_SIZE c3
             (withColumn cs VOCAB_SIZE c2 (withColumn cs (outputCol p) c1 ds)))"
    unfolding c1_def c2_def c3_def voc_def using assms(1,2) by (rule transform_ok)
  then have "transform cs p (Inr vectors) ds
      = Inr (ds @ [(outputCol p, c1), (VOCAB_SIZE, c2), (EMBEDDING_SIZE, c3)])"
    using d1 d2 d3 by simp
  with w show ?thesis
    unfolding c1_def c2_def c3_def by blast
qed

text \<open>
  A session that ignores case, the input column given as \<^verbatim>\<open>text\<close>, the output column
  \<^verbatim>\<open>features\<close>.
\<close>

theorem transform_adds_three_columns_witness:
  "resolve_column False example_dataset (inputCol unit_params) = Inr [StringCell ''unk'']
   \<and> 0 \<le> embeddingSize unit_params
   \<and> \<not> list_ex (\<lambda>c. resolver False c (outputCol unit_params)) (map fst example_dataset)
   \<and> \<not> list_ex (\<lambda>c. resolver False c VOCAB_SIZE) (map fst example_dataset)
   \<and> \<not> list_ex (\<lambda>c. resolver False c EMBEDDING_SIZE) (map fst example_dataset)
   \<and> \<not> resolver False (outputCol unit_params) VOCAB_SIZE
   \<and> \<not> resolver False (outputCol unit_params) EMBEDDING_SIZE
   \<and> transform False unit_params (Inr [(''cat'', [5])]) example_dataset
       = Inr (example_dataset @
              [(''features'', [UdfCell (Inr (matrix [[0]]))]),
               (''vocab_size'', [IntCell 2]), (''embedding_size'', [IntCell 1])])"
proof -
  have t: "resolve_column False example_dataset (inputCol unit_params) = Inr [StringCell ''unk'']"
    using resolve_text [of False] by (simp add: unit_params_def)
  have e: "0 \<le> embeddingSize unit_params"
    by (simp add: unit_params_def)
  have o: "\<forall>c \<in> fst ` set example_dataset. \<not> resolver False c (outputCol unit_params)"
    and v: "\<forall>c \<in> fst ` set example_dataset. \<not> resolver False c VOCAB_SIZE"
    and m: "\<forall>c \<in> fst ` set example_dataset. \<not> resolver False c EMBEDDING_SIZE"
    and ov: "\<not> resolver False (outputCol unit_params) VOCAB_SIZE"
    and om: "\<not> resolver False (outputCol unit_params) EMBEDDING_SIZE"
    by (simp_all add: example_dataset_def unit_params_def VOCAB_SIZE_def EMBEDDING_SIZE_def
        resolver_def lower_code_def)
  have w: "word_embedding unit_params [(''cat'', [5])] = Inr [(''cat'', [5]), (''unk'', [0])]"
    by (simp add: word_embedding_def np_zeros_def dict_of_def unit_params_def)
  have c: "cwti_udf unit_params [(''cat'', [5]), (''unk'', [0])] (StringCell ''unk'')
      = UdfCell (Inr (matrix [[0]]))"
    by (simp add: cwti_udf_def convert_word_to_index_def split_unk dict_contains_def dict_get_def
        pad_and_shape_def pad_sequences_def not_array_2d_def unit_params_def)
  show ?thesis
    using transform_adds_three_columns [OF t e o v m ov om, of "[(''cat'', [5])]"] t e o v m ov om
    by (simp add: w c list_ex_iff) (simp add: unit_params_def VOCAB_SIZE_def EMBEDDING_SIZE_def)
qed

end
